theory Spec2Isabelle
  imports Complex_Main "HOL-Library.AList" "HOL-Library.Word"
begin

section \<open>The tool image cache of AstrBot\<close>

text \<open>
  A shallow embedding of \<^verbatim>\<open>astrbot/core/agent/tool_image_cache.py\<close>: the class
  \<^verbatim>\<open>ToolImageCache\<close>, its in-memory index, the files it keeps under its cache
  directory and the log it writes. Strings are \<^typ>\<open>string\<close>, file contents are lists of
  bytes, time stamps (\<^verbatim>\<open>time.time()\<close>) are reals, and the moment of a call is an
  argument \<open>now\<close> of the operation.
\<close>

subsection \<open>Strings: \<^verbatim>\<open>str.lower\<close>, \<^verbatim>\<open>str(int)\<close>, \<^verbatim>\<open>rsplit\<close>, \<^verbatim>\<open>os.path.join\<close>\<close>

type_synonym byte = "8 word"

text \<open>
  \<^verbatim>\<open>str.lower()\<close> on the ASCII letters; every other character is kept. (The only
  character outside ASCII that Python lower-cases to an ASCII letter is the Kelvin sign,
  to \<open>k\<close>, a letter that no key of the table below has.)
\<close>

definition lower_char :: "char \<Rightarrow> char" where
  "lower_char c =
     (case map_of (zip ''ABCDEFGHIJKLMNOPQRSTUVWXYZ'' ''abcdefghijklmnopqrstuvwxyz'') c of
        Some l \<Rightarrow> l
      | None \<Rightarrow> c)"

definition lower :: "string \<Rightarrow> string" where
  "lower s = map lower_char s"

text \<open>The decimal text of a Python int, as \<^verbatim>\<open>f"{index}"\<close> formats it.\<close>

definition digit_char :: "nat \<Rightarrow> char" where
  "digit_char d = ''0123456789'' ! d"

function nat_digits :: "nat \<Rightarrow> string" where
  "nat_digits n = (if n < 10 then [digit_char n] else nat_digits (n div 10) @ [digit_char (n mod 10)])"
  by pat_completeness auto
termination
  by (relation "measure (\<lambda>n. n)") auto

declare nat_digits.simps [simp del]

definition str_int :: "int \<Rightarrow> string" where
  "str_int i = (if i < 0 then CHR ''-'' # nat_digits (nat (- i)) else nat_digits (nat i))"

text \<open>
  \<^verbatim>\<open>s.rsplit("_", 1)\<close>: the text before the last underscore and the text after it, or
  the whole string alone when it has no underscore.
\<close>

definition rsplit1 :: "string \<Rightarrow> string list" where
  "rsplit1 s =
     (let r = rev s in
      if CHR ''_'' \<in> set s
      then [rev (drop 1 (dropWhile (\<lambda>c. c \<noteq> CHR ''_'') r)), rev (takeWhile (\<lambda>c. c \<noteq> CHR ''_'') r)]
      else [s])"

text \<open>
  \<^verbatim>\<open>os.path.join(a, b)\<close> of \<^verbatim>\<open>posixpath\<close>: an absolute \<open>b\<close> replaces \<open>a\<close>; otherwise the
  two are joined by one separator, which is left out when \<open>a\<close> is empty or ends with one.
\<close>

definition path_join :: "string \<Rightarrow> string \<Rightarrow> string" where
  "path_join a b =
     (if b \<noteq> [] \<and> hd b = CHR ''/'' then b
      else if a = [] \<or> last a = CHR ''/'' then a @ b
      else a @ ''/'' @ b)"

subsection \<open>Base64, as \<^verbatim>\<open>base64.b64encode\<close> and \<^verbatim>\<open>base64.b64decode\<close> compute it\<close>

datatype error =
    Base64Error
  | NonAsciiError
  | FileNotFoundError
  | IsADirectoryError
  | NotADirectoryError
  | FileExistsError
  | PermissionError

definition b64_alphabet :: string where
  "b64_alphabet = ''ABCDEFGHIJKLMNOPQRSTUVWXYZabcdefghijklmnopqrstuvwxyz0123456789+/''"

definition b64_char :: "nat \<Rightarrow> char" where
  "b64_char n = b64_alphabet ! n"

fun index_of :: "'a \<Rightarrow> 'a list \<Rightarrow> nat option" where
  "index_of x [] = None"
| "index_of x (y # ys) = (if x = y then Some 0 else map_option Suc (index_of x ys))"

definition b64_value :: "char \<Rightarrow> nat option" where
  "b64_value c = index_of c b64_alphabet"

text \<open>
  The encoder takes three bytes to four characters of the alphabet and pads the last
  group with \<open>=\<close>; it writes no line breaks.
\<close>

fun b64encode :: "byte list \<Rightarrow> string" where
  "b64encode [] = []"
| "b64encode [a] =
     [b64_char (unat a div 4), b64_char (unat a mod 4 * 16), CHR ''='', CHR ''='']"
| "b64encode [a, b] =
     [b64_char (unat a div 4), b64_char (unat a mod 4 * 16 + unat b div 16),
      b64_char (unat b mod 16 * 4), CHR ''='']"
| "b64encode (a # b # c # rest) =
     [b64_char (unat a div 4), b64_char (unat a mod 4 * 16 + unat b div 16),
      b64_char (unat b mod 16 * 4 + unat c div 64), b64_char (unat c mod 64)] @ b64encode rest"

text \<open>
  The decoder is the lenient one (\<^verbatim>\<open>validate=False\<close>) of \<^verbatim>\<open>binascii.a2b_base64\<close>: a
  character outside the alphabet is skipped, a \<open>=\<close> that completes the padding of a
  started group ends the input, and data that stops inside a group is an error.
  \<open>quad_pos\<close> is the position in the group of four, \<open>leftchar\<close> the bits not yet written,
  \<open>pads\<close> the padding characters seen since the last data character.
\<close>

fun a2b_base64 :: "string \<Rightarrow> nat \<Rightarrow> nat \<Rightarrow> nat \<Rightarrow> byte list \<Rightarrow> error + byte list" where
  "a2b_base64 [] quad_pos leftchar pads out =
     (if quad_pos \<noteq> 0 then Inl Base64Error else Inr out)"
| "a2b_base64 (this_ch # rest) quad_pos leftchar pads out =
     (if this_ch = CHR ''='' then
        (if quad_pos \<ge> 2 \<and> quad_pos + (pads + 1) \<ge> 4 then Inr out
         else a2b_base64 rest quad_pos leftchar (if quad_pos \<ge> 2 then pads + 1 else pads) out)
      else
        (case b64_value this_ch of
           None \<Rightarrow> a2b_base64 rest quad_pos leftchar pads out
         | Some v \<Rightarrow>
             (if quad_pos = 0 then a2b_base64 rest 1 v 0 out
              else if quad_pos = 1 then
                a2b_base64 rest 2 (v mod 16) 0 (out @ [of_nat (leftchar * 4 + v div 16)])
              else if quad_pos = 2 then
                a2b_base64 rest 3 (v mod 4) 0 (out @ [of_nat (leftchar * 16 + v div 4)])
              else
                a2b_base64 rest 0 0 0 (out @ [of_nat (leftchar * 64 + v)]))))"

text \<open>
  \<^verbatim>\<open>base64.b64decode(s)\<close> of a \<^verbatim>\<open>str\<close>: the text is first encoded as ASCII, which
  raises on any other character.
\<close>

definition b64decode :: "string \<Rightarrow> error + byte list" where
  "b64decode s =
     (if \<exists>c \<in> set s. (of_char c :: nat) \<ge> 128 then Inl NonAsciiError
      else a2b_base64 s 0 0 0 [])"

subsection \<open>\<^verbatim>\<open>_get_file_extension\<close>\<close>

definition mime_to_ext :: "(string \<times> string) list" where
  "mime_to_ext =
     [(''image/png'', ''.png''),
      (''image/jpeg'', ''.jpg''),
      (''image/jpg'', ''.jpg''),
      (''image/gif'', ''.gif''),
      (''image/webp'', ''.webp''),
      (''image/bmp'', ''.bmp''),
      (''image/svg+xml'', ''.svg'')]"

definition get_file_extension :: "string \<Rightarrow> string" where
  "get_file_extension mime_type =
     (case map_of mime_to_ext (lower mime_type) of Some ext \<Rightarrow> ext | None \<Rightarrow> ''.png'')"

subsection \<open>The file system\<close>

text \<open>
  The files the cache works on are a finite store from path to node, in the order in
  which \<^verbatim>\<open>os.listdir\<close> reports them. A path is compared as the string it is: no
  normalisation, no links. What the operating system may refuse is part of the store
  (\<open>may_open_rb\<close> and the like), so that every \<^verbatim>\<open>OSError\<close> the code guards against is
  a case of the model; \<open>PermissionError\<close> stands for any such refusal.
\<close>

datatype node = File (content: "byte list") (mtime: real) | Directory (mtime: real)

record filesystem =
  nodes :: "(string \<times> node) list"
  may_open_rb :: "string \<Rightarrow> bool"
  may_open_wb :: "string \<Rightarrow> bool"
  may_remove :: "string \<Rightarrow> bool"
  may_listdir :: "string \<Rightarrow> bool"
  may_mkdir :: "string \<Rightarrow> bool"

definition fs_exists :: "filesystem \<Rightarrow> string \<Rightarrow> bool" where
  "fs_exists fs p = (map_of (nodes fs) p \<noteq> None)"

definition fs_isfile :: "filesystem \<Rightarrow> string \<Rightarrow> bool" where
  "fs_isfile fs p = (case map_of (nodes fs) p of Some (File _ _) \<Rightarrow> True | _ \<Rightarrow> False)"

definition fs_getmtime :: "filesystem \<Rightarrow> string \<Rightarrow> error + real" where
  "fs_getmtime fs p =
     (case map_of (nodes fs) p of None \<Rightarrow> Inl FileNotFoundError | Some n \<Rightarrow> Inr (mtime n))"

text \<open>\<^verbatim>\<open>open(p, "rb").read()\<close>\<close>

definition fs_read :: "filesystem \<Rightarrow> string \<Rightarrow> error + byte list" where
  "fs_read fs p =
     (case map_of (nodes fs) p of
        None \<Rightarrow> Inl FileNotFoundError
      | Some (Directory _) \<Rightarrow> Inl IsADirectoryError
      | Some (File c _) \<Rightarrow> if may_open_rb fs p then Inr c else Inl PermissionError)"

text \<open>
  \<^verbatim>\<open>open(p, "wb").write(data)\<close>: the file is created or replaced. A refused open leaves
  the store as it is; a write that fails after the open is not modelled.
\<close>

definition fs_write :: "filesystem \<Rightarrow> string \<Rightarrow> byte list \<Rightarrow> real \<Rightarrow> error + filesystem" where
  "fs_write fs p data now =
     (case map_of (nodes fs) p of
        Some (Directory _) \<Rightarrow> Inl IsADirectoryError
      | _ \<Rightarrow>
          if may_open_wb fs p
          then Inr (fs\<lparr>nodes := AList.update p (File data now) (nodes fs)\<rparr>)
          else Inl PermissionError)"

text \<open>\<^verbatim>\<open>os.remove(p)\<close>\<close>

definition fs_remove :: "filesystem \<Rightarrow> string \<Rightarrow> error + filesystem" where
  "fs_remove fs p =
     (case map_of (nodes fs) p of
        None \<Rightarrow> Inl FileNotFoundError
      | Some (Directory _) \<Rightarrow> Inl IsADirectoryError
      | Some (File _ _) \<Rightarrow>
          if may_remove fs p
          then Inr (fs\<lparr>nodes := AList.delete p (nodes fs)\<rparr>)
          else Inl PermissionError)"

text \<open>
  \<^verbatim>\<open>os.listdir(d)\<close>: the names \<open>n\<close> without a separator such that \<open>d/n\<close> is a path of
  the store.
\<close>

definition dir_prefix :: "string \<Rightarrow> string" where
  "dir_prefix d = (if d = [] \<or> last d = CHR ''/'' then d else d @ ''/'')"

definition child_name :: "string \<Rightarrow> string \<Rightarrow> string option" where
  "child_name d p =
     (let pre = dir_prefix d; n = drop (length pre) p
      in if take (length pre) p = pre \<and> n \<noteq> [] \<and> CHR ''/'' \<notin> set n then Some n else None)"

definition fs_listdir :: "filesystem \<Rightarrow> string \<Rightarrow> error + string list" where
  "fs_listdir fs d =
     (case map_of (nodes fs) d of
        None \<Rightarrow> Inl FileNotFoundError
      | Some (File _ _) \<Rightarrow> Inl NotADirectoryError
      | Some (Directory _) \<Rightarrow>
          if may_listdir fs d
          then Inr (List.map_filter (child_name d) (map fst (nodes fs)))
          else Inl PermissionError)"

text \<open>\<^verbatim>\<open>os.makedirs(d, exist_ok=True)\<close>; the directories above \<open>d\<close> are not recorded.\<close>

definition fs_makedirs :: "filesystem \<Rightarrow> string \<Rightarrow> real \<Rightarrow> error + filesystem" where
  "fs_makedirs fs d now =
     (case map_of (nodes fs) d of
        Some (Directory _) \<Rightarrow> Inr fs
      | Some (File _ _) \<Rightarrow> Inl FileExistsError
      | None \<Rightarrow>
          if may_mkdir fs d
          then Inr (fs\<lparr>nodes := AList.update d (Directory now) (nodes fs)\<rparr>)
          else Inl PermissionError)"

subsection \<open>The log\<close>

datatype level = DEBUG | INFO | WARNING | ERROR

datatype message =
    Initialized string
  | SavedImage string
  | SaveFailed error
  | ReadFailed string error
  | DeletedImage string
  | DeleteFailed error
  | OrphanCleanupError error
  | CleanedUp nat

type_synonym log_entry = "level \<times> message"

subsection \<open>\<^verbatim>\<open>CachedImage\<close> and the state of the process\<close>

record cached_image =
  image_ref :: string
  tool_call_id :: string
  tool_name :: string
  file_path :: string
  mime_type :: string
  created_at :: real

text \<open>
  The class keeps one instance, so the fields of that instance are fields of the state:
  \<open>has_instance\<close> says that \<^verbatim>\<open>ToolImageCache._instance\<close> is set, \<open>initialized\<close> is its
  \<^verbatim>\<open>_initialized\<close>, \<open>cache\<close> its \<^verbatim>\<open>_cache\<close> (a dict, in insertion order) and
  \<open>cache_dir\<close> its \<^verbatim>\<open>_cache_dir\<close>. \<open>fs\<close> is the file system and \<open>logs\<close> what the logger
  has received.
\<close>

record state =
  has_instance :: bool
  initialized :: bool
  cache :: "(string \<times> cached_image) list"
  cache_dir :: string
  fs :: filesystem
  logs :: "log_entry list"

definition CACHE_DIR_NAME :: string where
  "CACHE_DIR_NAME = ''tool_images''"

definition CACHE_EXPIRY :: real where
  "CACHE_EXPIRY = 3600"

definition log_to :: "state \<Rightarrow> level \<Rightarrow> message \<Rightarrow> state" where
  "log_to s l m = s\<lparr>logs := logs s @ [(l, m)]\<rparr>"

subsection \<open>Construction: \<^verbatim>\<open>__new__\<close> and \<^verbatim>\<open>__init__\<close>\<close>

definition new :: "state \<Rightarrow> state" where
  "new s = (if \<not> has_instance s then s\<lparr>has_instance := True, initialized := False\<rparr> else s)"

text \<open>
  Modelled from the spec: \<^verbatim>\<open>get_astrbot_temp_path\<close> is not part of the sources at
  hand; it is the path resolver "supplying the process's temp-storage root directory",
  here the argument \<open>temp_path\<close>.
\<close>

definition init :: "state \<Rightarrow> string \<Rightarrow> real \<Rightarrow> state \<times> (error + unit)" where
  "init s temp_path now =
     (if initialized s then (s, Inr ())
      else
        let s1 = s\<lparr>initialized := True, cache := [],
                   cache_dir := path_join temp_path CACHE_DIR_NAME\<rparr>
        in case fs_makedirs (fs s1) (cache_dir s1) now of
             Inl e \<Rightarrow> (s1, Inl e)
           | Inr fs' \<Rightarrow> (log_to (s1\<lparr>fs := fs'\<rparr>) DEBUG (Initialized (cache_dir s1)), Inr ()))"

text \<open>The call \<^verbatim>\<open>ToolImageCache()\<close> runs \<^verbatim>\<open>__new__\<close> and then \<^verbatim>\<open>__init__\<close>.\<close>

definition ToolImageCache :: "state \<Rightarrow> string \<Rightarrow> real \<Rightarrow> state \<times> (error + unit)" where
  "ToolImageCache s temp_path now = init (new s) temp_path now"

subsection \<open>\<^verbatim>\<open>save_image\<close>\<close>

text \<open>The body of the \<^verbatim>\<open>try\<close>: decode, then write.\<close>

definition decode_and_write ::
    "filesystem \<Rightarrow> string \<Rightarrow> string \<Rightarrow> real \<Rightarrow> error + filesystem" where
  "decode_and_write fsys path base64_data now =
     (case b64decode base64_data of
        Inl e \<Rightarrow> Inl e
      | Inr image_bytes \<Rightarrow> fs_write fsys path image_bytes now)"

definition save_image ::
    "state \<Rightarrow> string \<Rightarrow> string \<Rightarrow> string \<Rightarrow> int \<Rightarrow> string \<Rightarrow> real
       \<Rightarrow> state \<times> (error + cached_image)" where
  "save_image s base64_data call_id name index mime now =
     (let ref = call_id @ ''_'' @ str_int index;
          ext = get_file_extension mime;
          file_name = ref @ ext;
          path = path_join (cache_dir s) file_name
      in case decode_and_write (fs s) path base64_data now of
           Inl e \<Rightarrow> (log_to s ERROR (SaveFailed e), Inl e)
         | Inr fs' \<Rightarrow>
             let s1 = log_to (s\<lparr>fs := fs'\<rparr>) DEBUG (SavedImage path);
                 cached = \<lparr>image_ref = ref, tool_call_id = call_id, tool_name = name,
                           file_path = path, mime_type = mime, created_at = now\<rparr>
             in (s1\<lparr>cache := AList.update ref cached (cache s1)\<rparr>, Inr cached))"

subsection \<open>\<^verbatim>\<open>get_image\<close>\<close>

definition candidate_exts :: "string list" where
  "candidate_exts = [''.png'', ''.jpg'', ''.gif'', ''.webp'', ''.bmp'']"

definition reconstruct :: "string \<Rightarrow> string \<Rightarrow> string \<Rightarrow> real \<Rightarrow> cached_image" where
  "reconstruct ref path ext now =
     (let parts = rsplit1 ref;
          call_id = (if length parts > 1 then hd parts else ref)
      in \<lparr>image_ref = ref, tool_call_id = call_id, tool_name = ''unknown'',
          file_path = path, mime_type = ''image/'' @ drop 1 ext, created_at = now\<rparr>)"

text \<open>The loop over the extensions: the first path that exists is taken.\<close>

fun probe :: "state \<Rightarrow> string \<Rightarrow> real \<Rightarrow> string list \<Rightarrow> state \<times> cached_image option" where
  "probe s ref now [] = (s, None)"
| "probe s ref now (ext # exts) =
     (let path = path_join (cache_dir s) (ref @ ext)
      in if fs_exists (fs s) path
         then (let cached = reconstruct ref path ext now
               in (s\<lparr>cache := AList.update ref cached (cache s)\<rparr>, Some cached))
         else probe s ref now exts)"

definition get_image :: "state \<Rightarrow> string \<Rightarrow> real \<Rightarrow> state \<times> cached_image option" where
  "get_image s ref now =
     (case map_of (cache s) ref of
        Some cached \<Rightarrow>
          if fs_exists (fs s) (file_path cached) then (s, Some cached)
          else probe s ref now candidate_exts
      | None \<Rightarrow> probe s ref now candidate_exts)"

subsection \<open>\<^verbatim>\<open>get_image_base64\<close>\<close>

text \<open>The body of the \<^verbatim>\<open>try\<close>: read the file and encode it.\<close>

definition read_and_encode :: "filesystem \<Rightarrow> cached_image \<Rightarrow> error + (string \<times> string)" where
  "read_and_encode fsys cached =
     (case fs_read fsys (file_path cached) of
        Inl e \<Rightarrow> Inl e
      | Inr image_bytes \<Rightarrow> Inr (b64encode image_bytes, mime_type cached))"

definition get_image_base64 ::
    "state \<Rightarrow> string \<Rightarrow> real \<Rightarrow> state \<times> (string \<times> string) option" where
  "get_image_base64 s ref now =
     (case get_image s ref now of
        (s1, None) \<Rightarrow> (s1, None)
      | (s1, Some cached) \<Rightarrow>
          (case read_and_encode (fs s1) cached of
             Inr r \<Rightarrow> (s1, Some r)
           | Inl e \<Rightarrow> (log_to s1 ERROR (ReadFailed ref e), None)))"

subsection \<open>\<^verbatim>\<open>delete_image\<close>\<close>

definition delete_image :: "state \<Rightarrow> string \<Rightarrow> state \<times> bool" where
  "delete_image s ref =
     (let s1 = s\<lparr>cache := AList.delete ref (cache s)\<rparr>
      in case map_of (cache s) ref of
           None \<Rightarrow> (s1, False)
         | Some cached \<Rightarrow>
             if fs_exists (fs s1) (file_path cached)
             then (case fs_remove (fs s1) (file_path cached) of
                     Inr fs' \<Rightarrow> (log_to (s1\<lparr>fs := fs'\<rparr>) DEBUG (DeletedImage (file_path cached)), True)
                   | Inl e \<Rightarrow> (log_to s1 ERROR (DeleteFailed e), False))
             else (s1, False))"

subsection \<open>\<^verbatim>\<open>cleanup_expired\<close>\<close>

definition expired :: "real \<Rightarrow> cached_image \<Rightarrow> bool" where
  "expired now cached = (now - created_at cached > CACHE_EXPIRY)"

text \<open>The first two loops: collect the expired references, then delete each.\<close>

definition index_phase :: "state \<Rightarrow> real \<Rightarrow> state \<times> string list" where
  "index_phase s now =
     (let expired_refs = map fst (filter (\<lambda>(ref, cached). expired now cached) (cache s))
      in (fold (\<lambda>ref s'. fst (delete_image s' ref)) expired_refs s, expired_refs))"

text \<open>
  The loop over the directory listing. Whatever is raised inside ends the loop, is
  logged as a warning, and leaves \<open>expired_refs\<close> as far as it has grown.
\<close>

fun orphan_loop :: "state \<Rightarrow> real \<Rightarrow> string list \<Rightarrow> string list \<Rightarrow> state \<times> string list" where
  "orphan_loop s now [] expired_refs = (s, expired_refs)"
| "orphan_loop s now (file_name # rest) expired_refs =
     (let path = path_join (cache_dir s) file_name
      in if fs_isfile (fs s) path
         then (case fs_getmtime (fs s) path of
                 Inl e \<Rightarrow> (log_to s WARNING (OrphanCleanupError e), expired_refs)
               | Inr m \<Rightarrow>
                   if now - m > CACHE_EXPIRY
                   then (case fs_remove (fs s) path of
                           Inl e \<Rightarrow> (log_to s WARNING (OrphanCleanupError e), expired_refs)
                         | Inr fs' \<Rightarrow>
                             orphan_loop (s\<lparr>fs := fs'\<rparr>) now rest (expired_refs @ [file_name]))
                   else orphan_loop s now rest expired_refs)
         else orphan_loop s now rest expired_refs)"

definition orphan_phase :: "state \<Rightarrow> real \<Rightarrow> string list \<Rightarrow> state \<times> string list" where
  "orphan_phase s now expired_refs =
     (case fs_listdir (fs s) (cache_dir s) of
        Inl e \<Rightarrow> (log_to s WARNING (OrphanCleanupError e), expired_refs)
      | Inr names \<Rightarrow> orphan_loop s now names expired_refs)"

definition cleanup_expired :: "state \<Rightarrow> real \<Rightarrow> state \<times> nat" where
  "cleanup_expired s now =
     (case index_phase s now of
        (s1, refs1) \<Rightarrow>
          (case orphan_phase s1 now refs1 of
             (s2, expired_refs) \<Rightarrow>
               (if expired_refs \<noteq> [] then log_to s2 INFO (CleanedUp (length expired_refs)) else s2,
                length expired_refs)))"

subsection \<open>\<^verbatim>\<open>list_images_by_tool_call\<close>\<close>

definition list_images_by_tool_call :: "state \<Rightarrow> string \<Rightarrow> cached_image list" where
  "list_images_by_tool_call s call_id =
     filter (\<lambda>cached. tool_call_id cached = call_id) (map snd (cache s))"

subsection \<open>Well-formed states\<close>

text \<open>
  A Python dict has each key once, and a directory each path once: the two association
  lists of a state that the program can be in have distinct keys.
\<close>

definition wf_state :: "state \<Rightarrow> bool" where
  "wf_state s \<longleftrightarrow> distinct (map fst (cache s)) \<and> distinct (map fst (nodes (fs s)))"

subsection \<open>Example states\<close>

definition open_fs :: "(string \<times> node) list \<Rightarrow> filesystem" where
  "open_fs ns =
     \<lparr>nodes = ns, may_open_rb = (\<lambda>_. True), may_open_wb = (\<lambda>_. True),
      may_remove = (\<lambda>_. True), may_listdir = (\<lambda>_. True), may_mkdir = (\<lambda>_. True)\<rparr>"

definition fresh_state :: state where
  "fresh_state =
     \<lparr>has_instance = True, initialized = True, cache = [],
      cache_dir = ''/tmp/tool_images'',
      fs = open_fs [(''/tmp/tool_images'', Directory 0)], logs = []\<rparr>"

definition process_start :: "filesystem \<Rightarrow> state" where
  "process_start fsys =
     \<lparr>has_instance = False, initialized = False, cache = [], cache_dir = [], fs = fsys, logs = []\<rparr>"

definition image_a0 :: cached_image where
  "image_a0 =
     \<lparr>image_ref = ''a_0'', tool_call_id = ''a'', tool_name = ''shot'',
      file_path = ''/tmp/tool_images/a_0.png'', mime_type = ''image/png'', created_at = 5\<rparr>"

definition cold_state :: state where
  "cold_state =
     fresh_state\<lparr>fs := open_fs
        [(''/tmp/tool_images'', Directory 0),
         (''/tmp/tool_images/abc_0.bmp'', File [66, 77] 3),
         (''/tmp/tool_images/abc_0.webp'', File [82, 73] 4)]\<rparr>"

definition cached_state :: state where
  "cached_state =
     fresh_state\<lparr>cache := [(''a_0'', image_a0)],
       fs := open_fs
        [(''/tmp/tool_images'', Directory 0),
         (''/tmp/tool_images/a_0.png'', File [104, 105] 5)]\<rparr>"

definition unreadable_state :: state where
  "unreadable_state = cached_state\<lparr>fs := (fs cached_state)\<lparr>may_open_rb := (\<lambda>_. False)\<rparr>\<rparr>"

definition locked_state :: state where
  "locked_state = cached_state\<lparr>fs := (fs cached_state)\<lparr>may_remove := (\<lambda>_. False)\<rparr>\<rparr>"

definition stale_state :: state where
  "stale_state = fresh_state\<lparr>cache := [(''a_0'', image_a0)]\<rparr>"

definition svg_only_state :: state where
  "svg_only_state =
     fresh_state\<lparr>fs := open_fs
        [(''/tmp/tool_images'', Directory 0),
         (''/tmp/tool_images/a_0.svg'', File [60, 115] 2)]\<rparr>"

definition two_saves :: state where
  "two_saves =
     fst (save_image
            (fst (save_image fresh_state ''aGk='' ''a'' ''shot'' 0 ''image/png'' 1))
            ''PHM+'' ''a'' ''shot'' 0 ''image/svg+xml'' 2)"

definition saved_image :: cached_image where
  "saved_image =
     \<lparr>image_ref = ''abc_2'', tool_call_id = ''abc'', tool_name = ''shot'',
      file_path = ''/tmp/tool_images/abc_2.png'', mime_type = ''image/PNG'', created_at = 7\<rparr>"

definition saved_state :: state where
  "saved_state =
     fresh_state\<lparr>cache := [(''abc_2'', saved_image)],
       fs := open_fs [(''/tmp/tool_images'', Directory 0),
                      (''/tmp/tool_images/abc_2.png'', File [104, 105] 7)],
       logs := [(DEBUG, SavedImage ''/tmp/tool_images/abc_2.png'')]\<rparr>"

definition restarted :: state where
  "restarted = fst (ToolImageCache (process_start (fs two_saves)) ''/tmp'' 3)"

definition sweep_state :: state where
  "sweep_state =
     fresh_state\<lparr>cache :=
        [(''old_0'', \<lparr>image_ref = ''old_0'', tool_call_id = ''old'', tool_name = ''shot'',
             file_path = ''/tmp/tool_images/old_0.png'', mime_type = ''image/png'',
             created_at = 100\<rparr>),
         (''new_0'', \<lparr>image_ref = ''new_0'', tool_call_id = ''new'', tool_name = ''shot'',
             file_path = ''/tmp/tool_images/new_0.png'', mime_type = ''image/png'',
             created_at = 4000\<rparr>)],
       fs := open_fs
        [(''/tmp/tool_images'', Directory 0),
         (''/tmp/other.png'', File [1] 1),
         (''/tmp/tool_images/old_0.png'', File [104] 100),
         (''/tmp/tool_images/orphan_1.jpg'', File [105] 50),
         (''/tmp/tool_images/sub'', Directory 10),
         (''/tmp/tool_images/new_0.png'', File [106] 4000)]\<rparr>"

definition orphan_state :: state where
  "orphan_state =
     fresh_state\<lparr>fs := open_fs
        [(''/tmp/tool_images'', Directory 0),
         (''/tmp/tool_images/a_0.png'', File [104, 105] 5)]\<rparr>"

definition unlistable_state :: state where
  "unlistable_state = sweep_state\<lparr>fs := (fs sweep_state)\<lparr>may_listdir := (\<lambda>_. False)\<rparr>\<rparr>"

section \<open>Properties\<close>

subsection \<open>Base64: decoding an encoding gives the bytes back\<close>

lemma index_of_nth: "distinct xs \<Longrightarrow> n < length xs \<Longrightarrow> index_of (xs ! n) xs = Some n"
proof (induction xs arbitrary: n)
  case Nil
  then show ?case by simp
next
  case (Cons y ys)
  show ?case
  proof (cases n)
    case 0
    then show ?thesis by simp
  next
    case (Suc m)
    with Cons.prems have "ys ! m \<noteq> y" "m < length ys" "distinct ys" by auto
    with Cons.IH [of m] Suc show ?thesis by simp
  qed
qed

lemma b64_value_char: "n < 64 \<Longrightarrow> b64_value (b64_char n) = Some n"
  unfolding b64_value_def b64_char_def
  by (rule index_of_nth) (simp_all add: b64_alphabet_def)

lemma b64_alphabet_props: "\<forall>c \<in> set b64_alphabet. c \<noteq> CHR ''='' \<and> (of_char c :: nat) < 128"
  by (simp add: b64_alphabet_def)

lemma b64_char_in: "n < 64 \<Longrightarrow> b64_char n \<in> set b64_alphabet"
  unfolding b64_char_def by (rule nth_mem) (simp add: b64_alphabet_def)

lemma b64_char_not_pad: "n < 64 \<Longrightarrow> b64_char n \<noteq> CHR ''=''"
  using b64_alphabet_props b64_char_in by blast

lemma b64_char_ascii: "n < 64 \<Longrightarrow> (of_char (b64_char n) :: nat) < 128"
  using b64_alphabet_props b64_char_in by blast

lemma unat_byte_less: "unat (a :: byte) < 256"
  using unsigned_less [of a] by simp

lemma sextet_bounds:
  "unat (a :: byte) div 4 < 64"
  "unat (a :: byte) mod 4 * 16 < 64"
  "unat (a :: byte) mod 4 * 16 + unat (b :: byte) div 16 < 64"
  "unat (b :: byte) mod 16 * 4 < 64"
  "unat (b :: byte) mod 16 * 4 + unat (c :: byte) div 64 < 64"
  "unat (c :: byte) mod 64 < 64"
  using unat_byte_less [of a] unat_byte_less [of b] unat_byte_less [of c] by simp_all

lemma a2b_data:
  "v < 64 \<Longrightarrow> a2b_base64 (b64_char v # rest) quad_pos leftchar pads out =
     (if quad_pos = 0 then a2b_base64 rest 1 v 0 out
      else if quad_pos = 1 then
        a2b_base64 rest 2 (v mod 16) 0 (out @ [of_nat (leftchar * 4 + v div 16)])
      else if quad_pos = 2 then
        a2b_base64 rest 3 (v mod 4) 0 (out @ [of_nat (leftchar * 16 + v div 4)])
      else a2b_base64 rest 0 0 0 (out @ [of_nat (leftchar * 64 + v)]))"
  by (simp add: b64_char_not_pad b64_value_char)

lemma a2b_pad:
  "a2b_base64 (CHR ''='' # rest) quad_pos leftchar pads out =
     (if quad_pos \<ge> 2 \<and> quad_pos + (pads + 1) \<ge> 4 then Inr out
      else a2b_base64 rest quad_pos leftchar (if quad_pos \<ge> 2 then pads + 1 else pads) out)"
  by simp

lemma regroup_first:
  fixes x y :: nat
  assumes "y < 256"
  shows "x div 4 * 4 + (x mod 4 * 16 + y div 16) div 16 = x"
proof -
  have "y div 16 < 16" using assms by simp
  then have "(x mod 4 * 16 + y div 16) div 16 = x mod 4" by simp
  then show ?thesis by simp
qed

lemma regroup_second:
  fixes x y z :: nat
  assumes "y < 256" "z < 256"
  shows "(x mod 4 * 16 + y div 16) mod 16 * 16 + (y mod 16 * 4 + z div 64) div 4 = y"
proof -
  have "y div 16 < 16" using assms by simp
  then have a: "(x mod 4 * 16 + y div 16) mod 16 = y div 16" by simp
  have "z div 64 < 4" using assms by simp
  then have b: "(y mod 16 * 4 + z div 64) div 4 = y mod 16" by simp
  show ?thesis unfolding a b by simp
qed

lemma regroup_third:
  fixes y z :: nat
  assumes "z < 256"
  shows "(y mod 16 * 4 + z div 64) mod 4 * 64 + z mod 64 = z"
proof -
  have "z div 64 < 4" using assms by simp
  then have a: "(y mod 16 * 4 + z div 64) mod 4 = z div 64" by simp
  show ?thesis unfolding a by simp
qed

lemma regroup_first_padded:
  fixes x :: nat
  shows "x div 4 * 4 + (x mod 4 * 16) div 16 = x"
  by simp

lemma regroup_second_padded:
  fixes x y :: nat
  assumes "y < 256"
  shows "(x mod 4 * 16 + y div 16) mod 16 * 16 + (y mod 16 * 4) div 4 = y"
proof -
  have "y div 16 < 16" using assms by simp
  then have a: "(x mod 4 * 16 + y div 16) mod 16 = y div 16" by simp
  show ?thesis unfolding a by simp
qed

lemma byte_regroup:
  fixes a b c :: byte
  shows "(of_nat (unat a div 4 * 4 + (unat a mod 4 * 16 + unat b div 16) div 16) :: byte) = a"
    and "(of_nat ((unat a mod 4 * 16 + unat b div 16) mod 16 * 16
            + (unat b mod 16 * 4 + unat c div 64) div 4) :: byte) = b"
    and "(of_nat ((unat b mod 16 * 4 + unat c div 64) mod 4 * 64 + unat c mod 64) :: byte) = c"
    and "(of_nat (unat a div 4 * 4 + (unat a mod 4 * 16) div 16) :: byte) = a"
    and "(of_nat ((unat a mod 4 * 16 + unat b div 16) mod 16 * 16
            + (unat b mod 16 * 4) div 4) :: byte) = b"
  unfolding regroup_first [OF unat_byte_less]
    regroup_second [OF unat_byte_less unat_byte_less]
    regroup_third [OF unat_byte_less]
    regroup_first_padded
    regroup_second_padded [OF unat_byte_less]
  by simp_all

lemma a2b_pair:
  assumes "v1 < 64" "v2 < 64"
  shows "a2b_base64 (b64_char v1 # b64_char v2 # rest) 0 l p out =
           a2b_base64 rest 2 (v2 mod 16) 0 (out @ [of_nat (v1 * 4 + v2 div 16)])"
  using assms by (simp add: a2b_data del: a2b_base64.simps)

lemma a2b_third:
  assumes "v3 < 64"
  shows "a2b_base64 (b64_char v3 # rest) 2 l p out =
           a2b_base64 rest 3 (v3 mod 4) 0 (out @ [of_nat (l * 16 + v3 div 4)])"
  using assms by (simp add: a2b_data del: a2b_base64.simps)

lemma a2b_fourth:
  assumes "v4 < 64"
  shows "a2b_base64 (b64_char v4 # rest) 3 l p out =
           a2b_base64 rest 0 0 0 (out @ [of_nat (l * 64 + v4)])"
  using assms by (simp add: a2b_data del: a2b_base64.simps)

lemma a2b_b64encode: "a2b_base64 (b64encode bs) 0 l p out = Inr (out @ bs)"
proof (induction bs arbitrary: l p out rule: b64encode.induct)
  case 1
  then show ?case by simp
next
  case (2 a)
  have "a2b_base64 (b64encode [a]) 0 l p out =
          a2b_base64 ''=='' 2 ((unat a mod 4 * 16) mod 16) 0
            (out @ [of_nat (unat a div 4 * 4 + (unat a mod 4 * 16) div 16)])"
    unfolding b64encode.simps by (rule a2b_pair) (rule sextet_bounds)+
  also have "\<dots> = Inr (out @ [a])"
    unfolding byte_regroup(4) by (simp add: a2b_pad del: a2b_base64.simps(2))
  finally show ?case .
next
  case (3 a b)
  have "a2b_base64 (b64encode [a, b]) 0 l p out =
          a2b_base64 [b64_char (unat b mod 16 * 4), CHR ''='']
            2 ((unat a mod 4 * 16 + unat b div 16) mod 16) 0
            (out @ [of_nat (unat a div 4 * 4 + (unat a mod 4 * 16 + unat b div 16) div 16)])"
    unfolding b64encode.simps by (rule a2b_pair) (rule sextet_bounds)+
  also have "\<dots> = a2b_base64 ''='' 3 ((unat b mod 16 * 4) mod 4) 0
      ((out @ [a]) @ [of_nat ((unat a mod 4 * 16 + unat b div 16) mod 16 * 16
            + (unat b mod 16 * 4) div 4)])"
    unfolding byte_regroup(1) by (rule a2b_third) (rule sextet_bounds)
  also have "\<dots> = Inr (out @ [a, b])"
    unfolding byte_regroup(5) by (simp add: a2b_pad del: a2b_base64.simps(2))
  finally show ?case .
next
  case (4 a b c rest)
  have "a2b_base64 (b64encode (a # b # c # rest)) 0 l p out =
          a2b_base64
            (b64_char (unat b mod 16 * 4 + unat c div 64) # b64_char (unat c mod 64) # b64encode rest)
            2 ((unat a mod 4 * 16 + unat b div 16) mod 16) 0
            (out @ [of_nat (unat a div 4 * 4 + (unat a mod 4 * 16 + unat b div 16) div 16)])"
    unfolding b64encode.simps append_Cons append_Nil by (rule a2b_pair) (rule sextet_bounds)+
  also have "\<dots> = a2b_base64 (b64_char (unat c mod 64) # b64encode rest)
      3 ((unat b mod 16 * 4 + unat c div 64) mod 4) 0
      ((out @ [a]) @ [of_nat ((unat a mod 4 * 16 + unat b div 16) mod 16 * 16
            + (unat b mod 16 * 4 + unat c div 64) div 4)])"
    unfolding byte_regroup(1) by (rule a2b_third) (rule sextet_bounds)
  also have "\<dots> = a2b_base64 (b64encode rest) 0 0 0
      (((out @ [a]) @ [b]) @ [of_nat ((unat b mod 16 * 4 + unat c div 64) mod 4 * 64 + unat c mod 64)])"
    unfolding byte_regroup(2) by (rule a2b_fourth) (rule sextet_bounds)
  also have "\<dots> = Inr (out @ a # b # c # rest)"
    unfolding byte_regroup(3) "4.IH" by simp
  finally show ?case .
qed

lemma b64encode_ascii: "c \<in> set (b64encode bs) \<Longrightarrow> (of_char c :: nat) < 128"
  by (induction bs rule: b64encode.induct) (auto simp: b64_char_ascii sextet_bounds)

lemma b64decode_b64encode: "b64decode (b64encode bs) = Inr bs"
  using b64encode_ascii [of _ bs] by (auto simp: b64decode_def a2b_b64encode not_le)

subsection \<open>Helper facts about the log and the file system\<close>

lemma log_to_simps [simp]:
  "cache (log_to s l m) = cache s"
  "cache_dir (log_to s l m) = cache_dir s"
  "fs (log_to s l m) = fs s"
  "has_instance (log_to s l m) = has_instance s"
  "initialized (log_to s l m) = initialized s"
  "logs (log_to s l m) = logs s @ [(l, m)]"
  by (simp_all add: log_to_def)

lemma fs_write_result:
  "fs_write fsys p d now = Inr fs' \<Longrightarrow>
     fs' = fsys\<lparr>nodes := AList.update p (File d now) (nodes fsys)\<rparr>"
  by (auto simp: fs_write_def split: option.splits node.splits if_splits)

lemma fs_remove_result:
  "fs_remove fsys p = Inr fs' \<Longrightarrow>
     fs' = fsys\<lparr>nodes := AList.delete p (nodes fsys)\<rparr> \<and> fs_isfile fsys p \<and> may_remove fsys p"
  by (auto simp: fs_remove_def fs_isfile_def split: option.splits node.splits if_splits)

lemma fs_exists_update [simp]:
  "fs_exists (fsys\<lparr>nodes := AList.update p n (nodes fsys)\<rparr>) q \<longleftrightarrow> q = p \<or> fs_exists fsys q"
  by (simp add: fs_exists_def update_conv')

lemma fs_exists_delete [simp]:
  "fs_exists (fsys\<lparr>nodes := AList.delete p (nodes fsys)\<rparr>) q \<longleftrightarrow> q \<noteq> p \<and> fs_exists fsys q"
  by (simp add: fs_exists_def delete_conv')

lemma fs_isfile_exists: "fs_isfile fsys p \<Longrightarrow> fs_exists fsys p"
  by (auto simp: fs_isfile_def fs_exists_def split: option.splits)

subsection \<open>The file extension of a MIME type\<close>

lemma lower_literals:
  "lower ''image/JPEG'' = ''image/jpeg''"
  "lower ''application/octet-stream'' = ''application/octet-stream''"
  by (simp_all add: lower_def lower_char_def)

text \<open>
  Claim C4. \<^verbatim>\<open>save_image\<close> takes the extension of the file from the MIME type by a fixed
  table, looked up after lower-casing: two MIME types that differ in case only get the
  same extension; png, jpeg and jpg, gif, webp, bmp and svg+xml get \<open>.png\<close>, \<open>.jpg\<close>,
  \<open>.gif\<close>, \<open>.webp\<close>, \<open>.bmp\<close> and \<open>.svg\<close>; every other MIME type gets \<open>.png\<close>. So
  \<open>image/JPEG\<close> gets \<open>.jpg\<close> and \<open>application/octet-stream\<close> gets \<open>.png\<close>. The path
  of a saved image ends with that extension.
\<close>

theorem get_file_extension_lookup:
  "(lower m = lower m' \<longrightarrow> get_file_extension m = get_file_extension m')
   \<and> (lower m = ''image/png'' \<longrightarrow> get_file_extension m = ''.png'')
   \<and> (lower m = ''image/jpeg'' \<or> lower m = ''image/jpg'' \<longrightarrow> get_file_extension m = ''.jpg'')
   \<and> (lower m = ''image/gif'' \<longrightarrow> get_file_extension m = ''.gif'')
   \<and> (lower m = ''image/webp'' \<longrightarrow> get_file_extension m = ''.webp'')
   \<and> (lower m = ''image/bmp'' \<longrightarrow> get_file_extension m = ''.bmp'')
   \<and> (lower m = ''image/svg+xml'' \<longrightarrow> get_file_extension m = ''.svg'')
   \<and> (lower m \<notin> {''image/png'', ''image/jpeg'', ''image/jpg'', ''image/gif'', ''image/webp'',
                    ''image/bmp'', ''image/svg+xml''} \<longrightarrow> get_file_extension m = ''.png'')
   \<and> get_file_extension ''image/JPEG'' = ''.jpg''
   \<and> get_file_extension ''application/octet-stream'' = ''.png''
   \<and> (save_image s P call_id name index m now = (s1, Inr img) \<longrightarrow>
        file_path img =
          path_join (cache_dir s) ((call_id @ ''_'' @ str_int index) @ get_file_extension m))"
proof -
  have save: "save_image s P call_id name index m now = (s1, Inr img) \<longrightarrow>
        file_path img =
          path_join (cache_dir s) ((call_id @ ''_'' @ str_int index) @ get_file_extension m)"
    by (auto simp: save_image_def Let_def split: sum.splits)
  have other: "lower m \<notin> {''image/png'', ''image/jpeg'', ''image/jpg'', ''image/gif'', ''image/webp'',
                    ''image/bmp'', ''image/svg+xml''} \<longrightarrow> get_file_extension m = ''.png''"
    by (simp add: get_file_extension_def mime_to_ext_def)
  show ?thesis
    apply (intro conjI)
              apply (simp add: get_file_extension_def)
             apply (simp add: get_file_extension_def mime_to_ext_def)
            apply (auto simp add: get_file_extension_def mime_to_ext_def)[1]
           apply (simp add: get_file_extension_def mime_to_ext_def)
          apply (simp add: get_file_extension_def mime_to_ext_def)
         apply (simp add: get_file_extension_def mime_to_ext_def)
        apply (simp add: get_file_extension_def mime_to_ext_def)
       apply (rule other)
      apply (simp add: get_file_extension_def mime_to_ext_def lower_literals)
     apply (simp add: get_file_extension_def mime_to_ext_def lower_literals)
    apply (rule save)
    done
qed

theorem get_file_extension_lookup_witness:
  "lower ''Image/WebP'' = lower ''IMAGE/WEBP''
   \<and> lower ''Image/WebP'' = ''image/webp''
   \<and> get_file_extension ''Image/WebP'' = get_file_extension ''IMAGE/WEBP''
   \<and> get_file_extension ''Image/WebP'' = ''.webp''
   \<and> lower ''text/plain'' \<notin> {''image/png'', ''image/jpeg'', ''image/jpg'', ''image/gif'', ''image/webp'',
                    ''image/bmp'', ''image/svg+xml''}
   \<and> get_file_extension ''text/plain'' = ''.png''"
proof -
  have a: "lower ''Image/WebP'' = ''image/webp''" "lower ''IMAGE/WEBP'' = ''image/webp''"
    "lower ''text/plain'' = ''text/plain''"
    by (simp_all add: lower_def lower_char_def)
  have b: "lower ''text/plain'' \<notin> {''image/png'', ''image/jpeg'', ''image/jpg'', ''image/gif'', ''image/webp'',
                    ''image/bmp'', ''image/svg+xml''}"
    unfolding a by simp
  from get_file_extension_lookup [of "''Image/WebP''" "''IMAGE/WEBP''"]
       get_file_extension_lookup [of "''text/plain''"] a b
  show ?thesis by metis
qed

subsection \<open>Saving a payload that does not decode\<close>

text \<open>
  Claim C7. When the payload is not decodable base64, \<^verbatim>\<open>save_image\<close> raises the
  decoder's error to its caller, and nothing of the save has happened: no file is
  written (the file system is as before) and the index is as before; only the error is
  logged.
\<close>

theorem save_image_malformed:
  assumes "b64decode P = Inl e"
  shows "save_image s P call_id name index mime now = (log_to s ERROR (SaveFailed e), Inl e)
         \<and> fs (fst (save_image s P call_id name index mime now)) = fs s
         \<and> cache (fst (save_image s P call_id name index mime now)) = cache s"
  using assms by (simp add: save_image_def decode_and_write_def)

theorem save_image_malformed_witness:
  "b64decode ''YQ'' = Inl Base64Error
   \<and> save_image fresh_state ''YQ'' ''abc'' ''shot'' 0 ''image/png'' 10
        = (log_to fresh_state ERROR (SaveFailed Base64Error), Inl Base64Error)
   \<and> fs (fst (save_image fresh_state ''YQ'' ''abc'' ''shot'' 0 ''image/png'' 10)) = fs fresh_state
   \<and> cache (fst (save_image fresh_state ''YQ'' ''abc'' ''shot'' 0 ''image/png'' 10)) = cache fresh_state"
proof -
  have h: "b64decode ''YQ'' = Inl Base64Error"
    by (simp add: b64decode_def b64_value_def b64_alphabet_def)
  from save_image_malformed [OF h] h show ?thesis by simp
qed

subsection \<open>Looking an image up\<close>



lemma reconstruct_fields [simp]:
  "image_ref (reconstruct ref path ext now) = ref"
  "tool_name (reconstruct ref path ext now) = ''unknown''"
  "file_path (reconstruct ref path ext now) = path"
  "mime_type (reconstruct ref path ext now) = ''image/'' @ tl ext"
  "created_at (reconstruct ref path ext now) = now"
  by (simp_all add: reconstruct_def Let_def drop_Suc)


lemma probe_find:
  "probe s ref now exts =
     (case find (\<lambda>ext. fs_exists (fs s) (path_join (cache_dir s) (ref @ ext))) exts of
        None \<Rightarrow> (s, None)
      | Some ext \<Rightarrow>
          (s\<lparr>cache := AList.update ref
                (reconstruct ref (path_join (cache_dir s) (ref @ ext)) ext now) (cache s)\<rparr>,
           Some (reconstruct ref (path_join (cache_dir s) (ref @ ext)) ext now)))"
  by (induction exts) (simp_all add: Let_def)

lemma get_image_direct:
  "map_of (cache s) ref = Some c \<Longrightarrow> fs_exists (fs s) (file_path c) \<Longrightarrow>
     get_image s ref now = (s, Some c)"
  by (simp add: get_image_def)

lemma get_image_probe:
  "\<forall>c. map_of (cache s) ref = Some c \<longrightarrow> \<not> fs_exists (fs s) (file_path c) \<Longrightarrow>
     get_image s ref now = probe s ref now candidate_exts"
  by (simp add: get_image_def split: option.splits)


subsection \<open>Index entries whose file is gone\<close>

text \<open>
  Claim C2, as amended. A \<^verbatim>\<open>get_image\<close> that returns a record leaves that record in
  the index under the reference, with a file that exists. A \<^verbatim>\<open>get_image\<close> that
  returns \<open>None\<close> changes nothing: an entry of the reference whose file is gone is
  not returned, and it is not removed from the index either.
\<close>

theorem get_image_result:
  assumes "get_image s ref now = (s', r)"
  shows "case r of
           Some img \<Rightarrow> map_of (cache s') ref = Some img \<and> fs_exists (fs s') (file_path img)
         | None \<Rightarrow> s' = s \<and> (\<forall>c. map_of (cache s) ref = Some c \<longrightarrow> \<not> fs_exists (fs s) (file_path c))"
proof (cases "\<exists>c. map_of (cache s) ref = Some c \<and> fs_exists (fs s) (file_path c)")
  case True
  then obtain c where c: "map_of (cache s) ref = Some c" "fs_exists (fs s) (file_path c)" by blast
  with assms get_image_direct [of s ref c now] have "s' = s" "r = Some c" by simp_all
  with c show ?thesis by simp
next
  case False
  then have stale: "\<forall>c. map_of (cache s) ref = Some c \<longrightarrow> \<not> fs_exists (fs s) (file_path c)" by blast
  then have g: "get_image s ref now = probe s ref now candidate_exts" by (rule get_image_probe)
  show ?thesis
  proof (cases "find (\<lambda>ext. fs_exists (fs s) (path_join (cache_dir s) (ref @ ext))) candidate_exts")
    case None
    with assms g stale show ?thesis by (simp add: probe_find)
  next
    case (Some ext)
    then have "fs_exists (fs s) (path_join (cache_dir s) (ref @ ext))"
      by (auto simp: find_Some_iff)
    with assms g Some show ?thesis by (auto simp: probe_find update_conv')
  qed
qed

text \<open>
  Claim C2 as stated fails: here the index holds \<open>a_0\<close>, its file is gone and no
  candidate file exists; after \<^verbatim>\<open>get_image\<close> the entry is still there.
\<close>

theorem stale_entry_survives_get:
  "get_image stale_state ''a_0'' 10 = (stale_state, None)
   \<and> map_of (cache (fst (get_image stale_state ''a_0'' 10))) ''a_0'' = Some image_a0
   \<and> \<not> fs_exists (fs (fst (get_image stale_state ''a_0'' 10))) (file_path image_a0)"
proof -
  have g: "get_image stale_state ''a_0'' 10 = (stale_state, None)"
    by (simp add: get_image_def stale_state_def image_a0_def fresh_state_def open_fs_def
        fs_exists_def candidate_exts_def path_join_def)
  show ?thesis unfolding g
    by (simp add: stale_state_def image_a0_def fresh_state_def open_fs_def fs_exists_def)
qed


lemmas example_defs =
  fresh_state_def open_fs_def cold_state_def cached_state_def unreadable_state_def
  locked_state_def stale_state_def image_a0_def


theorem get_image_result_witness:
  "get_image cold_state ''abc_0'' 10 =
     (cold_state\<lparr>cache := [(''abc_0'', reconstruct ''abc_0'' ''/tmp/tool_images/abc_0.webp'' ''.webp'' 10)]\<rparr>,
      Some (reconstruct ''abc_0'' ''/tmp/tool_images/abc_0.webp'' ''.webp'' 10))
   \<and> map_of (cache (cold_state\<lparr>cache := [(''abc_0'', reconstruct ''abc_0'' ''/tmp/tool_images/abc_0.webp'' ''.webp'' 10)]\<rparr>))
        ''abc_0'' = Some (reconstruct ''abc_0'' ''/tmp/tool_images/abc_0.webp'' ''.webp'' 10)
   \<and> fs_exists (fs cold_state) ''/tmp/tool_images/abc_0.webp''"
proof -
  have g: "get_image cold_state ''abc_0'' 10 =
     (cold_state\<lparr>cache := [(''abc_0'', reconstruct ''abc_0'' ''/tmp/tool_images/abc_0.webp'' ''.webp'' 10)]\<rparr>,
      Some (reconstruct ''abc_0'' ''/tmp/tool_images/abc_0.webp'' ''.webp'' 10))"
    by (simp add: get_image_def example_defs candidate_exts_def fs_exists_def path_join_def Let_def)
  from get_image_result [OF g] g show ?thesis by simp
qed

subsection \<open>Deleting an image\<close>

lemma delete_image_cache [simp]:
  "cache (fst (delete_image s ref)) = AList.delete ref (cache s)"
  "cache_dir (fst (delete_image s ref)) = cache_dir s"
  "has_instance (fst (delete_image s ref)) = has_instance s"
  "initialized (fst (delete_image s ref)) = initialized s"
  by (simp_all add: delete_image_def Let_def split: option.splits sum.splits)

lemma delete_image_absent:
  "map_of (cache s) ref = None \<Longrightarrow>
     delete_image s ref = (s\<lparr>cache := AList.delete ref (cache s)\<rparr>, False)"
  by (simp add: delete_image_def)

lemma delete_image_removed:
  "map_of (cache s) ref = Some c \<Longrightarrow> fs_remove (fs s) (file_path c) = Inr fs' \<Longrightarrow>
     delete_image s ref =
       (log_to (s\<lparr>cache := AList.delete ref (cache s), fs := fs'\<rparr>) DEBUG (DeletedImage (file_path c)),
        True)"
  by (auto simp: delete_image_def Let_def dest: fs_remove_result fs_isfile_exists)

lemma delete_image_failed:
  "map_of (cache s) ref = Some c \<Longrightarrow> fs_remove (fs s) (file_path c) = Inl e \<Longrightarrow>
     delete_image s ref =
       (if fs_exists (fs s) (file_path c)
        then log_to (s\<lparr>cache := AList.delete ref (cache s)\<rparr>) ERROR (DeleteFailed e)
        else s\<lparr>cache := AList.delete ref (cache s)\<rparr>,
        False)"
  by (simp add: delete_image_def Let_def)

text \<open>
  Claim C6. \<^verbatim>\<open>delete_image\<close> always takes the reference out of the index. It
  returns \<open>True\<close> only when the entry had a file and that file is gone from disk
  afterwards, and it does so whenever the removal succeeds. It returns \<open>False\<close> when
  the index had no entry (nothing else changes), and when the file exists but its removal
  fails: then the files are as before and the failure is logged as an error, not
  raised. A second \<^verbatim>\<open>delete_image\<close> of the same reference returns \<open>False\<close>.
\<close>

theorem delete_image_result:
  "cache (fst (delete_image s ref)) = AList.delete ref (cache s)
   \<and> map_of (cache (fst (delete_image s ref))) ref = None
   \<and> (snd (delete_image s ref) \<longrightarrow>
        (\<exists>c. map_of (cache s) ref = Some c \<and> fs_isfile (fs s) (file_path c)
           \<and> \<not> fs_exists (fs (fst (delete_image s ref))) (file_path c)))
   \<and> (map_of (cache s) ref = None \<longrightarrow>
        \<not> snd (delete_image s ref) \<and> fs (fst (delete_image s ref)) = fs s
        \<and> logs (fst (delete_image s ref)) = logs s)
   \<and> (\<forall>c e. map_of (cache s) ref = Some c \<and> fs_exists (fs s) (file_path c)
          \<and> fs_remove (fs s) (file_path c) = Inl e \<longrightarrow>
        \<not> snd (delete_image s ref) \<and> fs (fst (delete_image s ref)) = fs s
        \<and> logs (fst (delete_image s ref)) = logs s @ [(ERROR, DeleteFailed e)])
   \<and> (\<forall>c fs'. map_of (cache s) ref = Some c \<and> fs_remove (fs s) (file_path c) = Inr fs' \<longrightarrow>
        snd (delete_image s ref) \<and> fs (fst (delete_image s ref)) = fs')
   \<and> \<not> snd (delete_image (fst (delete_image s ref)) ref)"
proof -
  have gone: "map_of (cache (fst (delete_image s ref))) ref = None"
    by (simp add: delete_conv')
  have true_case: "snd (delete_image s ref) \<longrightarrow>
        (\<exists>c. map_of (cache s) ref = Some c \<and> fs_isfile (fs s) (file_path c)
           \<and> \<not> fs_exists (fs (fst (delete_image s ref))) (file_path c))"
  proof (cases "map_of (cache s) ref")
    case None
    then show ?thesis by (simp add: delete_image_absent)
  next
    case (Some c)
    show ?thesis
    proof (cases "fs_remove (fs s) (file_path c)")
      case (Inl e)
      with Some show ?thesis by (simp add: delete_image_failed)
    next
      case (Inr fs')
      with Some fs_remove_result [OF Inr] show ?thesis by (simp add: delete_image_removed)
    qed
  qed
  have second: "\<not> snd (delete_image (fst (delete_image s ref)) ref)"
    using delete_image_absent [OF gone] by simp
  show ?thesis
    using gone true_case second
    by (auto simp: delete_image_absent delete_image_failed delete_image_removed)
qed

theorem delete_image_result_witness:
  "map_of (cache cached_state) ''a_0'' = Some image_a0
   \<and> fs_remove (fs cached_state) (file_path image_a0)
       = Inr (open_fs [(''/tmp/tool_images'', Directory 0)])
   \<and> snd (delete_image cached_state ''a_0'')
   \<and> fs (fst (delete_image cached_state ''a_0'')) = open_fs [(''/tmp/tool_images'', Directory 0)]
   \<and> cache (fst (delete_image cached_state ''a_0'')) = []
   \<and> \<not> snd (delete_image (fst (delete_image cached_state ''a_0'')) ''a_0'')
   \<and> map_of (cache locked_state) ''a_0'' = Some image_a0
   \<and> fs_exists (fs locked_state) (file_path image_a0)
   \<and> fs_remove (fs locked_state) (file_path image_a0) = Inl PermissionError
   \<and> \<not> snd (delete_image locked_state ''a_0'')
   \<and> fs (fst (delete_image locked_state ''a_0'')) = fs locked_state
   \<and> logs (fst (delete_image locked_state ''a_0'')) = [(ERROR, DeleteFailed PermissionError)]
   \<and> cache (fst (delete_image locked_state ''a_0'')) = []"
proof -
  have a: "map_of (cache cached_state) ''a_0'' = Some image_a0"
    "map_of (cache locked_state) ''a_0'' = Some image_a0"
    by (simp_all add: example_defs)
  have b: "fs_remove (fs cached_state) (file_path image_a0)
       = Inr (open_fs [(''/tmp/tool_images'', Directory 0)])"
    by (simp add: example_defs fs_remove_def)
  have c: "fs_exists (fs locked_state) (file_path image_a0)"
    "fs_remove (fs locked_state) (file_path image_a0) = Inl PermissionError"
    by (simp_all add: example_defs fs_remove_def fs_exists_def)
  have d: "logs locked_state = []" "AList.delete ''a_0'' (cache locked_state) = []"
    "AList.delete ''a_0'' (cache cached_state) = []"
    by (simp_all add: example_defs)
  from delete_image_result [of cached_state "''a_0''"] delete_image_result [of locked_state "''a_0''"]
    a b c d
  show ?thesis by auto
qed

subsection \<open>Reading an image back as base64\<close>

text \<open>
  Claim C8. When \<^verbatim>\<open>get_image\<close> finds the image but reading its file fails,
  \<^verbatim>\<open>get_image_base64\<close> returns \<open>None\<close> and logs the failure as an error. Whatever
  happens it returns a value: \<open>None\<close>, or the encoded content of the file that was
  read together with the MIME type of the record.
\<close>

theorem get_image_base64_read_failure:
  "(get_image s ref now = (s1, Some c) \<and> fs_read (fs s1) (file_path c) = Inl e \<longrightarrow>
      get_image_base64 s ref now = (log_to s1 ERROR (ReadFailed ref e), None))
   \<and> (snd (get_image_base64 s ref now) = None
       \<or> (\<exists>c bytes. get_image s ref now = (fst (get_image_base64 s ref now), Some c)
             \<and> fs_read (fs (fst (get_image_base64 s ref now))) (file_path c) = Inr bytes
             \<and> snd (get_image_base64 s ref now) = Some (b64encode bytes, mime_type c)))"
proof -
  obtain s' r where g: "get_image s ref now = (s', r)" by (cases "get_image s ref now")
  show ?thesis
  proof (cases r)
    case None
    with g show ?thesis by (simp add: get_image_base64_def)
  next
    case (Some c')
    show ?thesis
    proof (cases "fs_read (fs s') (file_path c')")
      case (Inl e')
      with g Some show ?thesis by (auto simp: get_image_base64_def read_and_encode_def)
    next
      case (Inr bytes)
      with g Some show ?thesis by (auto simp: get_image_base64_def read_and_encode_def)
    qed
  qed
qed

theorem get_image_base64_read_failure_witness:
  "get_image unreadable_state ''a_0'' 10 = (unreadable_state, Some image_a0)
   \<and> fs_read (fs unreadable_state) (file_path image_a0) = Inl PermissionError
   \<and> get_image_base64 unreadable_state ''a_0'' 10
       = (log_to unreadable_state ERROR (ReadFailed ''a_0'' PermissionError), None)
   \<and> get_image_base64 cached_state ''a_0'' 10 = (cached_state, Some (''aGk='', ''image/png''))"
proof -
  have g: "get_image unreadable_state ''a_0'' 10 = (unreadable_state, Some image_a0)"
    by (simp add: get_image_def example_defs fs_exists_def)
  have r: "fs_read (fs unreadable_state) (file_path image_a0) = Inl PermissionError"
    by (simp add: example_defs fs_read_def)
  have ok: "get_image_base64 cached_state ''a_0'' 10 = (cached_state, Some (''aGk='', ''image/png''))"
    by (simp add: get_image_base64_def get_image_def read_and_encode_def fs_read_def
        example_defs fs_exists_def b64_char_def b64_alphabet_def)
  from get_image_base64_read_failure [of unreadable_state "''a_0''" 10 unreadable_state image_a0
      PermissionError] g r ok
  show ?thesis by simp
qed

subsection \<open>Constructing the cache again\<close>

text \<open>
  Claim C9. Calling the constructor when the instance exists and is initialized
  returns that instance and changes nothing: index, cache directory, files and log are
  as before. After any call of the constructor the instance exists and is initialized,
  so a second call is of this kind.
\<close>

theorem constructor_idempotent:
  "(has_instance s \<and> initialized s \<longrightarrow> ToolImageCache s temp_path now = (s, Inr ()))
   \<and> has_instance (fst (ToolImageCache s temp_path now))
   \<and> initialized (fst (ToolImageCache s temp_path now))
   \<and> ToolImageCache (fst (ToolImageCache s temp_path now)) temp_path' now'
       = (fst (ToolImageCache s temp_path now), Inr ())"
proof -
  have a: "has_instance s \<and> initialized s \<longrightarrow> ToolImageCache s temp_path now = (s, Inr ())"
    for s temp_path now
    by (simp add: ToolImageCache_def new_def init_def)
  have b: "has_instance (fst (ToolImageCache s temp_path now))
           \<and> initialized (fst (ToolImageCache s temp_path now))"
    by (simp add: ToolImageCache_def new_def init_def Let_def split: sum.splits)
  from a b show ?thesis by blast
qed

theorem constructor_idempotent_witness:
  "has_instance cached_state \<and> initialized cached_state
   \<and> ToolImageCache cached_state ''/elsewhere'' 99 = (cached_state, Inr ())
   \<and> cache (fst (ToolImageCache cached_state ''/elsewhere'' 99)) = [(''a_0'', image_a0)]
   \<and> cache_dir (fst (ToolImageCache cached_state ''/elsewhere'' 99)) = ''/tmp/tool_images''
   \<and> fst (ToolImageCache (process_start (open_fs [])) ''/tmp'' 0) = fresh_state\<lparr>logs := [(DEBUG, Initialized ''/tmp/tool_images'')]\<rparr>"
proof -
  have h: "has_instance cached_state \<and> initialized cached_state"
    by (simp add: example_defs)
  have c: "cache cached_state = [(''a_0'', image_a0)]" "cache_dir cached_state = ''/tmp/tool_images''"
    by (simp_all add: example_defs)
  have f: "fst (ToolImageCache (process_start (open_fs [])) ''/tmp'' 0)
      = fresh_state\<lparr>logs := [(DEBUG, Initialized ''/tmp/tool_images'')]\<rparr>"
    by (simp add: ToolImageCache_def new_def init_def process_start_def example_defs Let_def
        path_join_def CACHE_DIR_NAME_def fs_makedirs_def log_to_def)
  from constructor_idempotent [of cached_state "''/elsewhere''" 99] h c f
  show ?thesis by simp
qed

subsection \<open>Images saved as svg\<close>

lemmas eval_defs =
  save_image_def decode_and_write_def b64decode_def b64_value_def b64_alphabet_def b64_char_def
  fs_write_def fs_read_def fs_exists_def fs_remove_def fs_isfile_def fs_getmtime_def
  get_file_extension_def mime_to_ext_def lower_def lower_char_def
  str_int_def nat_digits.simps digit_char_def path_join_def log_to_def Let_def
  get_image_def candidate_exts_def reconstruct_def rsplit1_def
  get_image_base64_def read_and_encode_def
  ToolImageCache_def new_def init_def process_start_def CACHE_DIR_NAME_def fs_makedirs_def

lemma path_join_suffix_inj:
  assumes "path_join d (r @ x) = path_join d (r @ y)"
    and "x \<noteq> []" "y \<noteq> []" "hd x \<noteq> CHR ''/''" "hd y \<noteq> CHR ''/''"
  shows "x = y"
proof -
  have "hd (r @ x) = CHR ''/'' \<longleftrightarrow> hd (r @ y) = CHR ''/''"
    using assms(2-5) by (cases r) simp_all
  moreover have "r @ x \<noteq> []" "r @ y \<noteq> []" using assms(2,3) by simp_all
  ultimately show ?thesis using assms(1)
    by (auto simp: path_join_def split: if_splits)
qed

lemma candidate_not_svg:
  assumes "ext \<in> set candidate_exts"
  shows "path_join d (ref @ ext) \<noteq> path_join d (ref @ ''.svg'')"
    and "''image/'' @ tl ext \<noteq> ''image/svg+xml''"
proof -
  from assms have e: "ext \<noteq> []" "hd ext \<noteq> CHR ''/''" "ext \<noteq> ''.svg''"
    by (auto simp: candidate_exts_def)
  show "path_join d (ref @ ext) \<noteq> path_join d (ref @ ''.svg'')"
  proof
    assume "path_join d (ref @ ext) = path_join d (ref @ ''.svg'')"
    from path_join_suffix_inj [OF this] e show False by simp
  qed
  from assms show "''image/'' @ tl ext \<noteq> ''image/svg+xml''"
    by (auto simp: candidate_exts_def)
qed

text \<open>
  Claim C10, as amended. An image saved as \<open>image/svg+xml\<close> is stored with the
  extension \<open>.svg\<close>, which is not among the extensions that \<^verbatim>\<open>get_image\<close> tries.
  When the reference is not in the index, \<^verbatim>\<open>get_image\<close> returns \<open>None\<close> if no file
  \<open>{image_ref}{ext}\<close> with one of the tried extensions exists, whether the \<open>.svg\<close> file
  exists or not; otherwise it returns the record rebuilt from the first such file that
  exists; and a record that it does return is never that of the \<open>.svg\<close> file.
\<close>

theorem svg_not_reconstructed:
  assumes "map_of (cache s) ref = None"
  shows "get_file_extension ''image/svg+xml'' = ''.svg''
     \<and> ''.svg'' \<notin> set candidate_exts
     \<and> ((\<forall>ext \<in> set candidate_exts. \<not> fs_exists (fs s) (path_join (cache_dir s) (ref @ ext)))
          \<longrightarrow> get_image s ref now = (s, None))
     \<and> (\<forall>img. snd (get_image s ref now) = Some img \<longrightarrow>
           file_path img \<noteq> path_join (cache_dir s) (ref @ ''.svg'')
           \<and> mime_type img \<noteq> ''image/svg+xml'')
     \<and> (\<forall>ext. find (\<lambda>ext. fs_exists (fs s) (path_join (cache_dir s) (ref @ ext)))
                  candidate_exts = Some ext \<longrightarrow>
           get_image s ref now =
             (s\<lparr>cache := AList.update ref
                   (reconstruct ref (path_join (cache_dir s) (ref @ ext)) ext now) (cache s)\<rparr>,
              Some (reconstruct ref (path_join (cache_dir s) (ref @ ext)) ext now)))"
proof -
  let ?ex = "\<lambda>ext. fs_exists (fs s) (path_join (cache_dir s) (ref @ ext))"
  have g: "get_image s ref now = probe s ref now candidate_exts"
    using assms by (simp add: get_image_def)
  have a: "get_file_extension ''image/svg+xml'' = ''.svg''"
    by (simp add: get_file_extension_def mime_to_ext_def lower_def lower_char_def)
  have b: "''.svg'' \<notin> set candidate_exts"
    by (simp add: candidate_exts_def)
  have c: "(\<forall>ext \<in> set candidate_exts. \<not> ?ex ext) \<longrightarrow> get_image s ref now = (s, None)"
  proof
    assume "\<forall>ext \<in> set candidate_exts. \<not> ?ex ext"
    then have "find ?ex candidate_exts = None" by (simp add: find_None_iff)
    then show "get_image s ref now = (s, None)" by (simp add: g probe_find)
  qed
  have d: "\<forall>img. snd (get_image s ref now) = Some img \<longrightarrow>
           file_path img \<noteq> path_join (cache_dir s) (ref @ ''.svg'')
           \<and> mime_type img \<noteq> ''image/svg+xml''"
  proof (cases "find ?ex candidate_exts")
    case None
    then show ?thesis by (simp add: g probe_find)
  next
    case (Some ext)
    then have "ext \<in> set candidate_exts" by (auto simp: find_Some_iff)
    from candidate_not_svg [OF this] Some show ?thesis
      by (auto simp: g probe_find)
  qed
  have e: "\<forall>ext. find ?ex candidate_exts = Some ext \<longrightarrow>
           get_image s ref now =
             (s\<lparr>cache := AList.update ref
                   (reconstruct ref (path_join (cache_dir s) (ref @ ext)) ext now) (cache s)\<rparr>,
              Some (reconstruct ref (path_join (cache_dir s) (ref @ ext)) ext now))"
    by (simp add: g probe_find)
  from a b c d e show ?thesis by blast
qed

theorem svg_not_reconstructed_witness:
  "map_of (cache svg_only_state) ''a_0'' = None
   \<and> fs_exists (fs svg_only_state) (path_join (cache_dir svg_only_state) (''a_0'' @ ''.svg''))
   \<and> filter (\<lambda>ext. fs_exists (fs svg_only_state)
                  (path_join (cache_dir svg_only_state) (''a_0'' @ ext))) candidate_exts = []
   \<and> get_image svg_only_state ''a_0'' 10 = (svg_only_state, None)"
proof -
  have h: "map_of (cache svg_only_state) ''a_0'' = None"
    by (simp add: svg_only_state_def example_defs)
  have e: "fs_exists (fs svg_only_state) (path_join (cache_dir svg_only_state) (''a_0'' @ ''.svg''))"
    by (simp add: svg_only_state_def example_defs fs_exists_def path_join_def)
  have n: "filter (\<lambda>ext. fs_exists (fs svg_only_state)
                  (path_join (cache_dir svg_only_state) (''a_0'' @ ext))) candidate_exts = []"
    by (simp add: svg_only_state_def example_defs fs_exists_def path_join_def candidate_exts_def)
  then have n': "\<forall>ext \<in> set candidate_exts.
         \<not> fs_exists (fs svg_only_state) (path_join (cache_dir svg_only_state) (''a_0'' @ ext))"
    by (simp add: filter_empty_conv)
  from svg_not_reconstructed [OF h, of 10] n'
  have "get_image svg_only_state ''a_0'' 10 = (svg_only_state, None)" by blast
  with h e n show ?thesis by blast
qed

text \<open>
  Claim C10 as stated fails when the same reference was saved before with another MIME
  type: after a png and then an svg were saved as \<open>a_0\<close> and the process has started
  again, the \<open>.svg\<close> file exists, the index is empty, and \<^verbatim>\<open>get_image\<close> returns the
  record of the png file instead of \<open>None\<close>.
\<close>

lemma two_saves_eval:
  "two_saves =
     \<lparr>has_instance = True, initialized = True,
      cache = [(''a_0'', \<lparr>image_ref = ''a_0'', tool_call_id = ''a'', tool_name = ''shot'',
                 file_path = ''/tmp/tool_images/a_0.svg'', mime_type = ''image/svg+xml'',
                 created_at = 2\<rparr>)],
      cache_dir = ''/tmp/tool_images'',
      fs = open_fs [(''/tmp/tool_images'', Directory 0),
                    (''/tmp/tool_images/a_0.png'', File [104, 105] 1),
                    (''/tmp/tool_images/a_0.svg'', File [60, 115, 62] 2)],
      logs = [(DEBUG, SavedImage ''/tmp/tool_images/a_0.png''),
              (DEBUG, SavedImage ''/tmp/tool_images/a_0.svg'')]\<rparr>"
  by (simp add: two_saves_def eval_defs example_defs)

lemma restarted_eval:
  "restarted =
     \<lparr>has_instance = True, initialized = True, cache = [],
      cache_dir = ''/tmp/tool_images'',
      fs = open_fs [(''/tmp/tool_images'', Directory 0),
                    (''/tmp/tool_images/a_0.png'', File [104, 105] 1),
                    (''/tmp/tool_images/a_0.svg'', File [60, 115, 62] 2)],
      logs = [(DEBUG, Initialized ''/tmp/tool_images'')]\<rparr>"
  by (simp add: restarted_def two_saves_eval eval_defs example_defs)

theorem svg_saved_png_returned:
  "map_of (cache two_saves) ''a_0'' \<noteq> None
   \<and> mime_type (the (map_of (cache two_saves) ''a_0'')) = ''image/svg+xml''
   \<and> map_of (cache restarted) ''a_0'' = None
   \<and> fs_exists (fs restarted) ''/tmp/tool_images/a_0.svg''
   \<and> snd (get_image restarted ''a_0'' 4) =
       Some \<lparr>image_ref = ''a_0'', tool_call_id = ''a'', tool_name = ''unknown'',
             file_path = ''/tmp/tool_images/a_0.png'', mime_type = ''image/png'',
             created_at = 4\<rparr>"
  unfolding restarted_eval two_saves_eval
  by (simp add: eval_defs example_defs)

subsection \<open>Saving and reading back\<close>

lemma save_image_success:
  assumes "save_image s P call_id name index mime now = (s1, Inr img)"
  shows "\<exists>bytes. b64decode P = Inr bytes
      \<and> img = \<lparr>image_ref = call_id @ ''_'' @ str_int index, tool_call_id = call_id, tool_name = name,
               file_path = path_join (cache_dir s) ((call_id @ ''_'' @ str_int index) @ get_file_extension mime),
               mime_type = mime, created_at = now\<rparr>
      \<and> fs s1 = (fs s)\<lparr>nodes := AList.update (file_path img) (File bytes now) (nodes (fs s))\<rparr>
      \<and> cache s1 = AList.update (image_ref img) img (cache s)
      \<and> cache_dir s1 = cache_dir s
      \<and> logs s1 = logs s @ [(DEBUG, SavedImage (file_path img))]"
  using assms
  by (auto simp: save_image_def decode_and_write_def Let_def split: sum.splits dest!: fs_write_result)

text \<open>
  Claim C1. When \<^verbatim>\<open>save_image\<close> has returned for a payload \<open>P\<close> and a MIME type \<open>M\<close>
  and the file it wrote can be read, \<^verbatim>\<open>get_image_base64\<close> of the returned
  reference, called next, returns the MIME type \<open>M\<close> as given and a payload that
  decodes to the same bytes as \<open>P\<close>; it is \<open>P\<close> itself when \<open>P\<close> is the encoding of
  some bytes. The state is not changed by the read.
\<close>

theorem save_then_get_base64:
  assumes "save_image s P call_id name index M now = (s1, Inr img)"
      and "may_open_rb (fs s) (file_path img)"
  shows "\<exists>bytes. b64decode P = Inr bytes
           \<and> get_image_base64 s1 (image_ref img) now' = (s1, Some (b64encode bytes, M))
           \<and> b64decode (b64encode bytes) = b64decode P
           \<and> (\<forall>raw. P = b64encode raw \<longrightarrow>
                 get_image_base64 s1 (image_ref img) now' = (s1, Some (P, M)))"
proof -
  from save_image_success [OF assms(1)] obtain bytes where
    dec: "b64decode P = Inr bytes"
    and mime: "mime_type img = M"
    and fs1: "fs s1 = (fs s)\<lparr>nodes := AList.update (file_path img) (File bytes now) (nodes (fs s))\<rparr>"
    and c1: "cache s1 = AList.update (image_ref img) img (cache s)"
    by auto
  have idx: "map_of (cache s1) (image_ref img) = Some img"
    by (simp add: c1 update_conv')
  have ex: "fs_exists (fs s1) (file_path img)"
    by (simp add: fs1)
  have get: "get_image s1 (image_ref img) now' = (s1, Some img)"
    using idx ex by (rule get_image_direct)
  have rd: "fs_read (fs s1) (file_path img) = Inr bytes"
    using assms(2) by (simp add: fs1 fs_read_def update_conv')
  have res: "get_image_base64 s1 (image_ref img) now' = (s1, Some (b64encode bytes, M))"
    by (simp add: get_image_base64_def get read_and_encode_def rd mime)
  have rt: "b64decode (b64encode bytes) = b64decode P"
    by (simp add: dec b64decode_b64encode)
  have canon: "\<forall>raw. P = b64encode raw \<longrightarrow>
                 get_image_base64 s1 (image_ref img) now' = (s1, Some (P, M))"
  proof (intro allI impI)
    fix raw assume "P = b64encode raw"
    with dec have "bytes = raw" by (simp add: b64decode_b64encode)
    with res \<open>P = b64encode raw\<close> show "get_image_base64 s1 (image_ref img) now' = (s1, Some (P, M))"
      by simp
  qed
  from dec res rt canon show ?thesis by blast
qed


theorem save_then_get_base64_witness:
  "save_image fresh_state ''aG k=!'' ''abc'' ''shot'' 2 ''image/PNG'' 7 = (saved_state, Inr saved_image)
   \<and> may_open_rb (fs fresh_state) (file_path saved_image)
   \<and> b64decode ''aG k=!'' = Inr [104, 105]
   \<and> image_ref saved_image = ''abc_2''
   \<and> get_image_base64 saved_state ''abc_2'' 8 = (saved_state, Some (''aGk='', ''image/PNG''))
   \<and> b64decode ''aGk='' = b64decode ''aG k=!''
   \<and> save_image fresh_state ''aGk='' ''abc'' ''shot'' 2 ''image/PNG'' 7 = (saved_state, Inr saved_image)"
proof -
  have sv: "save_image fresh_state ''aG k=!'' ''abc'' ''shot'' 2 ''image/PNG'' 7
              = (saved_state, Inr saved_image)"
    by (simp add: saved_state_def saved_image_def eval_defs example_defs)
  have sv': "save_image fresh_state ''aGk='' ''abc'' ''shot'' 2 ''image/PNG'' 7
              = (saved_state, Inr saved_image)"
    by (simp add: saved_state_def saved_image_def eval_defs example_defs)
  have perm: "may_open_rb (fs fresh_state) (file_path saved_image)"
    by (simp add: example_defs)
  have dec: "b64decode ''aG k=!'' = Inr [104, 105]"
    by (simp add: eval_defs)
  have enc: "b64encode [104, 105] = ''aGk=''"
    by (simp add: eval_defs)
  have ref: "image_ref saved_image = ''abc_2''"
    by (simp add: saved_image_def)
  from save_then_get_base64 [OF sv perm, of 8] dec enc ref
  have "get_image_base64 saved_state ''abc_2'' 8 = (saved_state, Some (''aGk='', ''image/PNG''))
        \<and> b64decode ''aGk='' = b64decode ''aG k=!''"
    by auto
  with sv sv' perm dec ref show ?thesis by simp
qed

subsection \<open>The expiry sweep\<close>

lemma length_delete_present:
  "distinct (map fst al) \<Longrightarrow> map_of al k = Some v \<Longrightarrow> Suc (length (AList.delete k al)) = length al"
proof (induction al)
  case Nil
  then show ?case by simp
next
  case (Cons a al)
  show ?case
  proof (cases "fst a = k")
    case True
    with Cons.prems have "k \<notin> fst ` set al" by auto
    then have "AList.delete k al = al" by simp
    with True show ?thesis by (cases a) simp
  next
    case False
    with Cons show ?thesis by (cases a) auto
  qed
qed

lemma delete_image_nodes:
  "nodes (fs (fst (delete_image s ref))) = nodes (fs s)
   \<or> (\<exists>p. nodes (fs (fst (delete_image s ref))) = AList.delete p (nodes (fs s)))"
  by (auto simp: delete_image_def Let_def split: option.splits sum.splits dest!: fs_remove_result)

lemma wf_delete_image: "wf_state s \<Longrightarrow> wf_state (fst (delete_image s ref))"
  using delete_image_nodes [of s ref]
  by (auto simp: wf_state_def distinct_delete)

lemma fold_delete_image:
  "wf_state s \<Longrightarrow>
     wf_state (fold (\<lambda>ref s'. fst (delete_image s' ref)) refs s)
     \<and> cache (fold (\<lambda>ref s'. fst (delete_image s' ref)) refs s)
         = filter (\<lambda>(k, v). k \<notin> set refs) (cache s)
     \<and> cache_dir (fold (\<lambda>ref s'. fst (delete_image s' ref)) refs s) = cache_dir s"
proof (induction refs arbitrary: s)
  case Nil
  then show ?case by simp
next
  case (Cons r refs)
  from Cons.prems have "wf_state (fst (delete_image s r))" by (rule wf_delete_image)
  from Cons.IH [OF this] show ?case
    by (auto simp: AList.delete_eq intro: filter_cong)
qed

lemma filter_keys_of_filter:
  assumes "distinct (map fst al)"
  shows "filter (\<lambda>(k, v). k \<notin> set (map fst (filter P al))) al = filter (\<lambda>kv. \<not> P kv) al"
proof (rule filter_cong [OF refl])
  fix kv assume kv: "kv \<in> set al"
  obtain k v where [simp]: "kv = (k, v)" by (cases kv)
  have "k \<in> set (map fst (filter P al)) \<longleftrightarrow> P (k, v)"
  proof
    assume "k \<in> set (map fst (filter P al))"
    then obtain v' where "(k, v') \<in> set al" "P (k, v')" by auto
    with kv assms have "v' = v" by (auto dest: eq_key_imp_eq_value)
    with \<open>P (k, v')\<close> show "P (k, v)" by simp
  next
    assume "P (k, v)"
    with kv show "k \<in> set (map fst (filter P al))" by force
  qed
  then show "(case kv of (k, v) \<Rightarrow> k \<notin> set (map fst (filter P al))) = (\<not> P kv)" by simp
qed

lemma index_phase_result:
  assumes "wf_state s"
  shows "wf_state (fst (index_phase s now))"
    and "cache (fst (index_phase s now)) = filter (\<lambda>(ref, c). \<not> expired now c) (cache s)"
    and "cache_dir (fst (index_phase s now)) = cache_dir s"
    and "snd (index_phase s now) = map fst (filter (\<lambda>(ref, c). expired now c) (cache s))"
    and "length (snd (index_phase s now)) + length (cache (fst (index_phase s now))) = length (cache s)"
proof -
  let ?P = "\<lambda>(ref, c). expired now c"
  note f = fold_delete_image [OF assms, of "map fst (filter ?P (cache s))"]
  from assms have d: "distinct (map fst (cache s))" by (simp add: wf_state_def)
  show "wf_state (fst (index_phase s now))" using f by (simp add: index_phase_def Let_def)
  show c: "cache (fst (index_phase s now)) = filter (\<lambda>(ref, c). \<not> expired now c) (cache s)"
    using f filter_keys_of_filter [OF d, of ?P]
    by (simp add: index_phase_def Let_def case_prod_unfold)
  show "cache_dir (fst (index_phase s now)) = cache_dir s" using f by (simp add: index_phase_def Let_def)
  show r: "snd (index_phase s now) = map fst (filter ?P (cache s))"
    by (simp add: index_phase_def Let_def)
  have "length (filter ?P (cache s)) + length (filter (\<lambda>kv. \<not> ?P kv) (cache s)) = length (cache s)"
    by (rule sum_length_filter_compl)
  then show "length (snd (index_phase s now)) + length (cache (fst (index_phase s now))) = length (cache s)"
    unfolding c r by (simp add: case_prod_unfold)
qed

lemma orphan_loop_step:
  "(orphan_loop s now (n # ns) acc = orphan_loop s now ns acc
      \<and> (\<forall>c m. map_of (nodes (fs s)) (path_join (cache_dir s) n) = Some (File c m)
              \<longrightarrow> \<not> now - m > CACHE_EXPIRY))
   \<or> (\<exists>e c m. orphan_loop s now (n # ns) acc = (log_to s WARNING (OrphanCleanupError e), acc)
        \<and> map_of (nodes (fs s)) (path_join (cache_dir s) n) = Some (File c m)
        \<and> now - m > CACHE_EXPIRY
        \<and> fs_remove (fs s) (path_join (cache_dir s) n) = Inl e)
   \<or> (\<exists>fs' c m. fs_remove (fs s) (path_join (cache_dir s) n) = Inr fs'
        \<and> map_of (nodes (fs s)) (path_join (cache_dir s) n) = Some (File c m)
        \<and> now - m > CACHE_EXPIRY
        \<and> orphan_loop s now (n # ns) acc = orphan_loop (s\<lparr>fs := fs'\<rparr>) now ns (acc @ [n]))"
  by (auto simp: Let_def fs_isfile_def fs_getmtime_def split: sum.splits option.splits node.splits)

lemma orphan_loop_inv:
  assumes "distinct (map fst (nodes (fs s)))" "orphan_loop s now names acc = (s', out)"
  shows "distinct (map fst (nodes (fs s')))
     \<and> cache s' = cache s \<and> cache_dir s' = cache_dir s
     \<and> length out + length (nodes (fs s')) = length acc + length (nodes (fs s))
     \<and> length acc \<le> length out
     \<and> (\<forall>p n. map_of (nodes (fs s')) p = Some n \<longrightarrow> map_of (nodes (fs s)) p = Some n)
     \<and> (\<forall>p. fs_exists (fs s) p \<and> \<not> fs_exists (fs s') p \<longrightarrow>
           (\<exists>c m. map_of (nodes (fs s)) p = Some (File c m) \<and> now - m > CACHE_EXPIRY))"
  using assms
proof (induction names arbitrary: s acc)
  case Nil
  then show ?case by simp
next
  case (Cons n ns)
  let ?p = "path_join (cache_dir s) n"
  from orphan_loop_step [of s now n ns acc]
  consider (skip) "orphan_loop s now (n # ns) acc = orphan_loop s now ns acc"
    | (fail) e where "orphan_loop s now (n # ns) acc = (log_to s WARNING (OrphanCleanupError e), acc)"
    | (rm) fs' c m where "fs_remove (fs s) ?p = Inr fs'"
        "map_of (nodes (fs s)) ?p = Some (File c m)" "now - m > CACHE_EXPIRY"
        "orphan_loop s now (n # ns) acc = orphan_loop (s\<lparr>fs := fs'\<rparr>) now ns (acc @ [n])"
    by blast
  then show ?case
  proof cases
    case skip
    with Cons.prems have "orphan_loop s now ns acc = (s', out)" by simp
    from Cons.IH [OF Cons.prems(1) this] show ?thesis .
  next
    case fail
    with Cons.prems have "s' = log_to s WARNING (OrphanCleanupError e)" "out = acc" by simp_all
    then show ?thesis using Cons.prems(1) by simp
  next
    case rm
    from fs_remove_result [OF rm(1)] have fs': "fs' = (fs s)\<lparr>nodes := AList.delete ?p (nodes (fs s))\<rparr>"
      by simp
    let ?s2 = "s\<lparr>fs := fs'\<rparr>"
    have d2: "distinct (map fst (nodes (fs ?s2)))"
      using Cons.prems(1) by (simp add: fs' distinct_delete)
    have run: "orphan_loop ?s2 now ns (acc @ [n]) = (s', out)"
      using rm(4) Cons.prems(2) by simp
    note ih = Cons.IH [OF d2 run]
    have len: "Suc (length (nodes (fs ?s2))) = length (nodes (fs s))"
      using length_delete_present [OF Cons.prems(1) rm(2)] by (simp add: fs')
    have sub: "map_of (nodes (fs ?s2)) q = Some x \<Longrightarrow> map_of (nodes (fs s)) q = Some x" for q x
      by (auto simp: fs' delete_conv' split: if_splits)
    have gone: "fs_exists (fs s) q \<Longrightarrow> \<not> fs_exists (fs ?s2) q \<Longrightarrow> q = ?p" for q
      by (auto simp: fs')
    have a: "distinct (map fst (nodes (fs s')))" "cache s' = cache s" "cache_dir s' = cache_dir s"
      using ih by simp_all
    have b: "length out + length (nodes (fs s')) = length (n # acc) + length (nodes (fs ?s2))"
      "length acc \<le> length out"
      using ih by simp_all
    have c: "\<forall>q x. map_of (nodes (fs s')) q = Some x \<longrightarrow> map_of (nodes (fs s)) q = Some x"
      using ih sub by blast
    have d: "\<forall>q. fs_exists (fs s) q \<and> \<not> fs_exists (fs s') q \<longrightarrow>
           (\<exists>c m. map_of (nodes (fs s)) q = Some (File c m) \<and> now - m > CACHE_EXPIRY)"
    proof (intro allI impI)
      fix q assume q: "fs_exists (fs s) q \<and> \<not> fs_exists (fs s') q"
      show "\<exists>c m. map_of (nodes (fs s)) q = Some (File c m) \<and> now - m > CACHE_EXPIRY"
      proof (cases "fs_exists (fs ?s2) q")
        case True
        with q ih obtain c' m' where "map_of (nodes (fs ?s2)) q = Some (File c' m')" "now - m' > CACHE_EXPIRY"
          by blast
        with sub show ?thesis by blast
      next
        case False
        with q gone have "q = ?p" by blast
        with rm(2,3) show ?thesis by blast
      qed
    qed
    from a b c d len show ?thesis by simp
  qed
qed


lemma child_name_join: "child_name d p = Some n \<Longrightarrow> path_join d n = p"
proof -
  assume a: "child_name d p = Some n"
  let ?pre = "dir_prefix d"
  from a have n: "n = drop (length ?pre) p" "take (length ?pre) p = ?pre" "n \<noteq> []"
    "CHR ''/'' \<notin> set n"
    by (auto simp: child_name_def Let_def split: if_splits)
  from n(3,4) have "hd n \<noteq> CHR ''/''" by (cases n) auto
  then have "path_join d n = ?pre @ n"
    using n(3) by (simp add: path_join_def dir_prefix_def)
  also have "\<dots> = p" using n(1,2) append_take_drop_id [of "length ?pre" p] by simp
  finally show ?thesis .
qed

lemma in_set_map_filter:
  "y \<in> set (List.map_filter f xs) \<longleftrightarrow> (\<exists>x \<in> set xs. f x = Some y)"
  by (induction xs) (auto split: option.splits)

lemma fs_listdir_result:
  "fs_listdir fsys d = Inr names \<Longrightarrow>
     names = List.map_filter (child_name d) (map fst (nodes fsys))"
  by (auto simp: fs_listdir_def split: option.splits node.splits if_splits)

lemma fs_listdir_names:
  assumes "fs_listdir fsys d = Inr names" "child_name d p = Some n" "p \<in> fst ` set (nodes fsys)"
  shows "n \<in> set names"
proof -
  from assms(3) have "p \<in> set (map fst (nodes fsys))" by simp
  with assms(2) have "\<exists>x \<in> set (map fst (nodes fsys)). child_name d x = Some n" by blast
  then show ?thesis
    unfolding fs_listdir_result [OF assms(1)] in_set_map_filter .
qed

lemma orphan_loop_complete:
  assumes "distinct (map fst (nodes (fs s)))" "orphan_loop s now names acc = (s', out)"
    and "\<forall>n \<in> set names. \<forall>c m.
           map_of (nodes (fs s)) (path_join (cache_dir s) n) = Some (File c m) \<and> now - m > CACHE_EXPIRY
           \<longrightarrow> may_remove (fs s) (path_join (cache_dir s) n)"
  shows "\<forall>n \<in> set names. \<forall>c m.
           map_of (nodes (fs s')) (path_join (cache_dir s) n) = Some (File c m)
           \<longrightarrow> \<not> now - m > CACHE_EXPIRY"
  using assms
proof (induction names arbitrary: s acc)
  case Nil
  then show ?case by simp
next
  case (Cons n ns)
  let ?p = "path_join (cache_dir s) n"
  note inv = orphan_loop_inv [OF Cons.prems(1,2)]
  from orphan_loop_step [of s now n ns acc]
  consider (skip) "orphan_loop s now (n # ns) acc = orphan_loop s now ns acc"
        "\<forall>c m. map_of (nodes (fs s)) ?p = Some (File c m) \<longrightarrow> \<not> now - m > CACHE_EXPIRY"
    | (fail) e c m where "map_of (nodes (fs s)) ?p = Some (File c m)" "now - m > CACHE_EXPIRY"
        "fs_remove (fs s) ?p = Inl e"
    | (rm) fs' c m where "fs_remove (fs s) ?p = Inr fs'"
        "map_of (nodes (fs s)) ?p = Some (File c m)" "now - m > CACHE_EXPIRY"
        "orphan_loop s now (n # ns) acc = orphan_loop (s\<lparr>fs := fs'\<rparr>) now ns (acc @ [n])"
    by blast
  then show ?case
  proof cases
    case skip
    with Cons.prems have run: "orphan_loop s now ns acc = (s', out)" by simp
    have tl: "\<forall>n' \<in> set ns. \<forall>c m.
           map_of (nodes (fs s')) (path_join (cache_dir s) n') = Some (File c m)
           \<longrightarrow> \<not> now - m > CACHE_EXPIRY"
      using Cons.IH [OF Cons.prems(1) run] Cons.prems(3) by simp
    have hd: "\<forall>c m. map_of (nodes (fs s')) ?p = Some (File c m) \<longrightarrow> \<not> now - m > CACHE_EXPIRY"
      using inv skip(2) by blast
    from hd tl show ?thesis by simp
  next
    case fail
    with Cons.prems(3) have "may_remove (fs s) ?p" by simp
    with fail(1,3) show ?thesis by (simp add: fs_remove_def)
  next
    case rm
    from fs_remove_result [OF rm(1)] have fs': "fs' = (fs s)\<lparr>nodes := AList.delete ?p (nodes (fs s))\<rparr>"
      by simp
    let ?s2 = "s\<lparr>fs := fs'\<rparr>"
    have d2: "distinct (map fst (nodes (fs ?s2)))"
      using Cons.prems(1) by (simp add: fs' distinct_delete)
    have run: "orphan_loop ?s2 now ns (acc @ [n]) = (s', out)"
      using rm(4) Cons.prems(2) by simp
    have sub: "map_of (nodes (fs ?s2)) q = Some x \<Longrightarrow> map_of (nodes (fs s)) q = Some x" for q x
      by (auto simp: fs' delete_conv' split: if_splits)
    have hyp2: "\<forall>n' \<in> set ns. \<forall>c m.
           map_of (nodes (fs ?s2)) (path_join (cache_dir ?s2) n') = Some (File c m) \<and> now - m > CACHE_EXPIRY
           \<longrightarrow> may_remove (fs ?s2) (path_join (cache_dir ?s2) n')"
    proof (intro ballI allI impI)
      fix n' c m
      assume n': "n' \<in> set ns"
        and "map_of (nodes (fs ?s2)) (path_join (cache_dir ?s2) n') = Some (File c m) \<and> now - m > CACHE_EXPIRY"
      then have "map_of (nodes (fs s)) (path_join (cache_dir s) n') = Some (File c m)" "now - m > CACHE_EXPIRY"
        using sub by simp_all
      with Cons.prems(3) n' have "may_remove (fs s) (path_join (cache_dir s) n')" by auto
      then show "may_remove (fs ?s2) (path_join (cache_dir ?s2) n')" by (simp add: fs')
    qed
    have tl: "\<forall>n' \<in> set ns. \<forall>c m.
           map_of (nodes (fs s')) (path_join (cache_dir s) n') = Some (File c m)
           \<longrightarrow> \<not> now - m > CACHE_EXPIRY"
      using Cons.IH [OF d2 run hyp2] by simp
    have "map_of (nodes (fs ?s2)) ?p = None" by (simp add: fs' delete_conv')
    with orphan_loop_inv [OF d2 run] have "map_of (nodes (fs s')) ?p = None"
      by (cases "map_of (nodes (fs s')) ?p") auto
    with tl show ?thesis by simp
  qed
qed

lemma orphan_phase_inv:
  assumes "distinct (map fst (nodes (fs s)))" "orphan_phase s now acc = (s', out)"
  shows "distinct (map fst (nodes (fs s')))
     \<and> cache s' = cache s \<and> cache_dir s' = cache_dir s
     \<and> length out + length (nodes (fs s')) = length acc + length (nodes (fs s))
     \<and> length acc \<le> length out
     \<and> (\<forall>p n. map_of (nodes (fs s')) p = Some n \<longrightarrow> map_of (nodes (fs s)) p = Some n)
     \<and> (\<forall>p. fs_exists (fs s) p \<and> \<not> fs_exists (fs s') p \<longrightarrow>
           (\<exists>c m. map_of (nodes (fs s)) p = Some (File c m) \<and> now - m > CACHE_EXPIRY))"
proof (cases "fs_listdir (fs s) (cache_dir s)")
  case (Inl e)
  with assms(2) have "s' = log_to s WARNING (OrphanCleanupError e)" "out = acc"
    by (simp_all add: orphan_phase_def)
  with assms(1) show ?thesis by simp
next
  case (Inr names)
  with assms(2) have "orphan_loop s now names acc = (s', out)" by (simp add: orphan_phase_def)
  from orphan_loop_inv [OF assms(1) this] show ?thesis .
qed

lemma orphan_phase_complete:
  assumes "distinct (map fst (nodes (fs s)))" "orphan_phase s now acc = (s', out)"
    and "fs_listdir (fs s) (cache_dir s) = Inr names"
    and "\<forall>p c m. child_name (cache_dir s) p \<noteq> None
           \<and> map_of (nodes (fs s)) p = Some (File c m) \<and> now - m > CACHE_EXPIRY
           \<longrightarrow> may_remove (fs s) p"
  shows "\<forall>p c m. child_name (cache_dir s) p \<noteq> None \<and> map_of (nodes (fs s')) p = Some (File c m)
           \<longrightarrow> \<not> now - m > CACHE_EXPIRY"
proof (intro allI impI)
  fix p c m
  assume a: "child_name (cache_dir s) p \<noteq> None \<and> map_of (nodes (fs s')) p = Some (File c m)"
  then obtain n where n: "child_name (cache_dir s) p = Some n" by auto
  have run: "orphan_loop s now names acc = (s', out)"
    using assms(2,3) by (simp add: orphan_phase_def)
  have "map_of (nodes (fs s)) p = Some (File c m)"
    using orphan_loop_inv [OF assms(1) run] a by blast
  then have "p \<in> fst ` set (nodes (fs s))" by (auto dest: map_of_SomeD intro: rev_image_eqI)
  from fs_listdir_names [OF assms(3) n this] have mem: "n \<in> set names" .
  have hyp: "\<forall>n \<in> set names. \<forall>c m.
           map_of (nodes (fs s)) (path_join (cache_dir s) n) = Some (File c m) \<and> now - m > CACHE_EXPIRY
           \<longrightarrow> may_remove (fs s) (path_join (cache_dir s) n)"
  proof (intro ballI allI impI)
    fix n' c' m'
    assume "n' \<in> set names"
      and f: "map_of (nodes (fs s)) (path_join (cache_dir s) n') = Some (File c' m') \<and> now - m' > CACHE_EXPIRY"
    then obtain q where "child_name (cache_dir s) q = Some n'"
      unfolding fs_listdir_result [OF assms(3)] in_set_map_filter by blast
    then have "child_name (cache_dir s) (path_join (cache_dir s) n') \<noteq> None"
      using child_name_join by fastforce
    with f assms(4) show "may_remove (fs s) (path_join (cache_dir s) n')" by blast
  qed
  from orphan_loop_complete [OF assms(1) run hyp] mem a child_name_join [OF n]
  show "\<not> now - m > CACHE_EXPIRY" by auto
qed


text \<open>
  Claim C3. In a state whose index and directory have each key once,
  \<^verbatim>\<open>cleanup_expired\<close> first passes every index entry older than 3600 seconds through
  \<^verbatim>\<open>delete_image\<close>, which leaves exactly the younger entries in the index, and then
  removes files of the cache directory whose modification time is older than 3600
  seconds. The number it returns is the number of entries that left the index plus the
  number of files that left the disk in the second phase. The second phase removes only
  regular files that old and changes no other file; when the listing works and no old
  file of the directory is refused by the OS, no such file is left. When the directory
  cannot be listed, the second phase removes nothing and adds nothing to the count, and
  the failure is logged as a warning. Nothing is raised: \<^verbatim>\<open>cleanup_expired\<close> returns
  a state and a count in every case.
\<close>

theorem cleanup_expired_count:
  assumes "wf_state s"
  shows "let s1 = fst (index_phase s now);
             s' = fst (cleanup_expired s now);
             n = snd (cleanup_expired s now);
             old_refs = map fst (filter (\<lambda>(ref, c). now - created_at c > 3600) (cache s))
         in s1 = fold (\<lambda>ref st. fst (delete_image st ref)) old_refs s
          \<and> cache s' = filter (\<lambda>(ref, c). \<not> now - created_at c > 3600) (cache s)
          \<and> n = (length (cache s) - length (cache s'))
                 + (length (nodes (fs s1)) - length (nodes (fs s')))
          \<and> n = length old_refs + (length (nodes (fs s1)) - length (nodes (fs s')))
          \<and> (\<forall>p. fs_exists (fs s1) p \<and> \<not> fs_exists (fs s') p \<longrightarrow>
                (\<exists>c m. map_of (nodes (fs s1)) p = Some (File c m) \<and> now - m > 3600))
          \<and> (\<forall>p x. map_of (nodes (fs s')) p = Some x \<longrightarrow> map_of (nodes (fs s1)) p = Some x)
          \<and> (\<forall>names. fs_listdir (fs s1) (cache_dir s) = Inr names
                \<and> (\<forall>p c m. child_name (cache_dir s) p \<noteq> None
                       \<and> map_of (nodes (fs s1)) p = Some (File c m) \<and> now - m > 3600
                       \<longrightarrow> may_remove (fs s1) p)
              \<longrightarrow> (\<forall>p c m. child_name (cache_dir s) p \<noteq> None
                       \<and> map_of (nodes (fs s')) p = Some (File c m) \<longrightarrow> \<not> now - m > 3600))
          \<and> (\<forall>e. fs_listdir (fs s1) (cache_dir s) = Inl e \<longrightarrow>
                n = length old_refs \<and> fs s' = fs s1
                \<and> (WARNING, OrphanCleanupError e) \<in> set (logs s'))"
proof -
  obtain s1 refs where ip: "index_phase s now = (s1, refs)" by (cases "index_phase s now")
  obtain s2 out where op: "orphan_phase s1 now refs = (s2, out)" by (cases "orphan_phase s1 now refs")
  let ?s' = "fst (cleanup_expired s now)"
  have cl: "cleanup_expired s now =
              (if out \<noteq> [] then log_to s2 INFO (CleanedUp (length out)) else s2, length out)"
    by (simp add: cleanup_expired_def ip op)
  have s': "cache ?s' = cache s2" "fs ?s' = fs s2" "snd (cleanup_expired s now) = length out"
    by (simp_all add: cl)
  note i = index_phase_result [OF assms, of now, unfolded ip fst_conv snd_conv]
  from i(1) have d1: "distinct (map fst (nodes (fs s1)))" by (simp add: wf_state_def)
  note o = orphan_phase_inv [OF d1 op]
  have fold: "s1 = fold (\<lambda>ref st. fst (delete_image st ref)) refs s"
    using ip by (auto simp: index_phase_def Let_def)
  have refs: "refs = map fst (filter (\<lambda>(ref, c). now - created_at c > 3600) (cache s))"
    using i(4) by (simp add: expired_def CACHE_EXPIRY_def)
  have c: "cache ?s' = filter (\<lambda>(ref, c). \<not> now - created_at c > 3600) (cache s)"
    using i(2) o by (simp add: s' expired_def CACHE_EXPIRY_def)
  have le: "length (nodes (fs s2)) \<le> length (nodes (fs s1))"
    using o by linarith
  have n2: "length out = length refs + (length (nodes (fs s1)) - length (nodes (fs s2)))"
    using o le by linarith
  have n1: "length out = (length (cache s) - length (cache ?s'))
                 + (length (nodes (fs s1)) - length (nodes (fs s2)))"
    using n2 i(5) o by (simp add: s')
  have only_old: "\<forall>p. fs_exists (fs s1) p \<and> \<not> fs_exists (fs s2) p \<longrightarrow>
                (\<exists>c m. map_of (nodes (fs s1)) p = Some (File c m) \<and> now - m > 3600)"
    using o by (simp add: CACHE_EXPIRY_def)
  have kept: "\<forall>p x. map_of (nodes (fs s2)) p = Some x \<longrightarrow> map_of (nodes (fs s1)) p = Some x"
    using o by blast
  have complete: "\<forall>names. fs_listdir (fs s1) (cache_dir s) = Inr names
                \<and> (\<forall>p c m. child_name (cache_dir s) p \<noteq> None
                       \<and> map_of (nodes (fs s1)) p = Some (File c m) \<and> now - m > 3600
                       \<longrightarrow> may_remove (fs s1) p)
              \<longrightarrow> (\<forall>p c m. child_name (cache_dir s) p \<noteq> None
                       \<and> map_of (nodes (fs s2)) p = Some (File c m) \<longrightarrow> \<not> now - m > 3600)"
  proof (intro allI impI, elim conjE)
    fix names p c m
    assume l: "fs_listdir (fs s1) (cache_dir s) = Inr names"
      and r: "\<forall>p c m. child_name (cache_dir s) p \<noteq> None
                       \<and> map_of (nodes (fs s1)) p = Some (File c m) \<and> now - m > 3600
                       \<longrightarrow> may_remove (fs s1) p"
      and p: "child_name (cache_dir s) p \<noteq> None" "map_of (nodes (fs s2)) p = Some (File c m)"
    from orphan_phase_complete [OF d1 op, of names] l r p i(3)
    show "\<not> now - m > 3600" by (simp add: CACHE_EXPIRY_def)
  qed
  have failed: "\<forall>e. fs_listdir (fs s1) (cache_dir s) = Inl e \<longrightarrow>
                length out = length refs \<and> fs s2 = fs s1
                \<and> (WARNING, OrphanCleanupError e) \<in> set (logs ?s')"
  proof (intro allI impI)
    fix e assume "fs_listdir (fs s1) (cache_dir s) = Inl e"
    with op i(3) have "s2 = log_to s1 WARNING (OrphanCleanupError e)" "out = refs"
      by (simp_all add: orphan_phase_def)
    then show "length out = length refs \<and> fs s2 = fs s1
                \<and> (WARNING, OrphanCleanupError e) \<in> set (logs ?s')"
      by (simp add: cl)
  qed
  show ?thesis
    unfolding Let_def ip fst_conv s' refs [symmetric]
    using fold c n1 n2 only_old kept complete failed by (simp only: s' simp_thms)
qed


lemmas cleanup_defs =
  cleanup_expired_def index_phase_def orphan_phase_def delete_image_def expired_def
  CACHE_EXPIRY_def fs_listdir_def child_name_def dir_prefix_def
  fs_exists_def fs_remove_def fs_isfile_def fs_getmtime_def path_join_def log_to_def Let_def
  sweep_state_def unlistable_state_def fresh_state_def open_fs_def

lemma sweep_index_phase:
  "index_phase sweep_state 5000 =
     (sweep_state\<lparr>cache :=
        [(''new_0'', \<lparr>image_ref = ''new_0'', tool_call_id = ''new'', tool_name = ''shot'',
             file_path = ''/tmp/tool_images/new_0.png'', mime_type = ''image/png'',
             created_at = 4000\<rparr>)],
       fs := open_fs
        [(''/tmp/tool_images'', Directory 0),
         (''/tmp/other.png'', File [1] 1),
         (''/tmp/tool_images/orphan_1.jpg'', File [105] 50),
         (''/tmp/tool_images/sub'', Directory 10),
         (''/tmp/tool_images/new_0.png'', File [106] 4000)],
       logs := [(DEBUG, DeletedImage ''/tmp/tool_images/old_0.png'')]\<rparr>,
      [''old_0''])"
  by (simp add: cleanup_defs)

lemma sweep_cleanup:
  "cleanup_expired sweep_state 5000 =
     (sweep_state\<lparr>cache :=
        [(''new_0'', \<lparr>image_ref = ''new_0'', tool_call_id = ''new'', tool_name = ''shot'',
             file_path = ''/tmp/tool_images/new_0.png'', mime_type = ''image/png'',
             created_at = 4000\<rparr>)],
       fs := open_fs
        [(''/tmp/tool_images'', Directory 0),
         (''/tmp/other.png'', File [1] 1),
         (''/tmp/tool_images/sub'', Directory 10),
         (''/tmp/tool_images/new_0.png'', File [106] 4000)],
       logs := [(DEBUG, DeletedImage ''/tmp/tool_images/old_0.png''), (INFO, CleanedUp 2)]\<rparr>,
      2)"
  by (simp add: cleanup_defs)

lemma unlistable_cleanup:
  "snd (cleanup_expired unlistable_state 5000) = 1"
  "fs_listdir (fs (fst (index_phase unlistable_state 5000))) (cache_dir unlistable_state)
     = Inl PermissionError"
  "map fst (nodes (fs (fst (cleanup_expired unlistable_state 5000)))) =
     [''/tmp/tool_images'', ''/tmp/other.png'', ''/tmp/tool_images/orphan_1.jpg'',
      ''/tmp/tool_images/sub'', ''/tmp/tool_images/new_0.png'']"
  by (simp_all add: cleanup_defs)

theorem cleanup_expired_count_witness:
  "wf_state sweep_state
   \<and> snd (cleanup_expired sweep_state 5000) = 2
   \<and> snd (cleanup_expired sweep_state 5000)
       = (length (cache sweep_state) - length (cache (fst (cleanup_expired sweep_state 5000))))
         + (length (nodes (fs (fst (index_phase sweep_state 5000))))
            - length (nodes (fs (fst (cleanup_expired sweep_state 5000)))))
   \<and> map fst (cache (fst (cleanup_expired sweep_state 5000))) = [''new_0'']
   \<and> map fst (nodes (fs (fst (cleanup_expired sweep_state 5000)))) =
        [''/tmp/tool_images'', ''/tmp/other.png'', ''/tmp/tool_images/sub'',
         ''/tmp/tool_images/new_0.png'']
   \<and> wf_state unlistable_state
   \<and> fs_listdir (fs (fst (index_phase unlistable_state 5000))) (cache_dir unlistable_state)
       = Inl PermissionError
   \<and> snd (cleanup_expired unlistable_state 5000) = 1
   \<and> fs (fst (cleanup_expired unlistable_state 5000)) = fs (fst (index_phase unlistable_state 5000))"
proof -
  have w: "wf_state sweep_state" "wf_state unlistable_state"
    by (simp_all add: wf_state_def sweep_state_def unlistable_state_def fresh_state_def open_fs_def)
  have a: "snd (cleanup_expired sweep_state 5000) = 2"
    "map fst (cache (fst (cleanup_expired sweep_state 5000))) = [''new_0'']"
    "map fst (nodes (fs (fst (cleanup_expired sweep_state 5000)))) =
        [''/tmp/tool_images'', ''/tmp/other.png'', ''/tmp/tool_images/sub'',
         ''/tmp/tool_images/new_0.png'']"
    unfolding sweep_cleanup by (simp_all add: open_fs_def)
  from cleanup_expired_count [OF w(1), of 5000]
  have b: "snd (cleanup_expired sweep_state 5000)
       = (length (cache sweep_state) - length (cache (fst (cleanup_expired sweep_state 5000))))
         + (length (nodes (fs (fst (index_phase sweep_state 5000))))
            - length (nodes (fs (fst (cleanup_expired sweep_state 5000)))))"
    unfolding Let_def by blast
  from cleanup_expired_count [OF w(2), of 5000] unlistable_cleanup(2)
  have c: "fs (fst (cleanup_expired unlistable_state 5000)) = fs (fst (index_phase unlistable_state 5000))"
    unfolding Let_def by blast
  from w a b c unlistable_cleanup(1,2) show ?thesis by simp
qed


subsection \<open>What every operation keeps\<close>

lemma probe_keeps:
  "fs (fst (probe s ref now exts)) = fs s"
  "cache_dir (fst (probe s ref now exts)) = cache_dir s"
  "has_instance (fst (probe s ref now exts)) = has_instance s"
  "initialized (fst (probe s ref now exts)) = initialized s"
  "distinct (map fst (cache s)) \<Longrightarrow> distinct (map fst (cache (fst (probe s ref now exts))))"
  by (induction exts) (simp_all add: Let_def distinct_update)

lemma get_image_keeps:
  "fs (fst (get_image s ref now)) = fs s"
  "cache_dir (fst (get_image s ref now)) = cache_dir s"
  "has_instance (fst (get_image s ref now)) = has_instance s"
  "initialized (fst (get_image s ref now)) = initialized s"
  by (simp_all add: get_image_def probe_keeps split: option.splits)

lemma wf_get_image: "wf_state s \<Longrightarrow> wf_state (fst (get_image s ref now))"
  by (simp add: wf_state_def get_image_keeps)
     (simp add: get_image_def probe_keeps split: option.splits)

lemma get_image_base64_keeps:
  "fs (fst (get_image_base64 s ref now)) = fs s"
  "cache (fst (get_image_base64 s ref now)) = cache (fst (get_image s ref now))"
  "cache_dir (fst (get_image_base64 s ref now)) = cache_dir s"
  "has_instance (fst (get_image_base64 s ref now)) = has_instance s"
  "initialized (fst (get_image_base64 s ref now)) = initialized s"
  using get_image_keeps [of s ref now]
  by (auto simp: get_image_base64_def split: prod.splits option.splits sum.splits)

lemma wf_get_image_base64: "wf_state s \<Longrightarrow> wf_state (fst (get_image_base64 s ref now))"
  using wf_get_image [of s ref now] by (simp add: wf_state_def get_image_base64_keeps)

lemma save_image_keeps:
  "cache_dir (fst (save_image s P call_id name index mime now)) = cache_dir s"
  "has_instance (fst (save_image s P call_id name index mime now)) = has_instance s"
  "initialized (fst (save_image s P call_id name index mime now)) = initialized s"
  by (simp_all add: save_image_def Let_def split: sum.splits)

lemma wf_save_image:
  "wf_state s \<Longrightarrow> wf_state (fst (save_image s P call_id name index mime now))"
  by (auto simp: wf_state_def save_image_def decode_and_write_def Let_def distinct_update
      split: sum.splits dest!: fs_write_result)

lemma fold_delete_image_flags:
  "has_instance (fold (\<lambda>ref s'. fst (delete_image s' ref)) refs s) = has_instance s
   \<and> initialized (fold (\<lambda>ref s'. fst (delete_image s' ref)) refs s) = initialized s"
  by (induction refs arbitrary: s) simp_all

lemma orphan_loop_flags:
  "has_instance (fst (orphan_loop s now names acc)) = has_instance s
   \<and> initialized (fst (orphan_loop s now names acc)) = initialized s"
  by (induction names arbitrary: s acc) (simp_all add: Let_def split: sum.splits)

lemma cleanup_expired_keeps:
  "has_instance (fst (cleanup_expired s now)) = has_instance s
   \<and> initialized (fst (cleanup_expired s now)) = initialized s"
proof -
  obtain s1 refs where ip: "index_phase s now = (s1, refs)" by (cases "index_phase s now")
  obtain s2 out where op: "orphan_phase s1 now refs = (s2, out)" by (cases "orphan_phase s1 now refs")
  have f1: "has_instance s1 = has_instance s \<and> initialized s1 = initialized s"
    using ip fold_delete_image_flags [of refs s] by (auto simp: index_phase_def Let_def)
  have f2: "has_instance s2 = has_instance s1 \<and> initialized s2 = initialized s1"
  proof (cases "fs_listdir (fs s1) (cache_dir s1)")
    case (Inl e)
    with op show ?thesis by (auto simp: orphan_phase_def)
  next
    case (Inr names)
    with op have "fst (orphan_loop s1 now names refs) = s2" by (simp add: orphan_phase_def)
    with orphan_loop_flags [of s1 now names refs] show ?thesis by simp
  qed
  from f1 f2 show ?thesis by (simp add: cleanup_expired_def ip op)
qed

lemma wf_cleanup_expired: "wf_state s \<Longrightarrow> wf_state (fst (cleanup_expired s now))"
proof -
  assume w: "wf_state s"
  obtain s1 refs where ip: "index_phase s now = (s1, refs)" by (cases "index_phase s now")
  obtain s2 out where op: "orphan_phase s1 now refs = (s2, out)" by (cases "orphan_phase s1 now refs")
  from index_phase_result(1) [OF w, of now] ip have w1: "wf_state s1" by simp
  then have "distinct (map fst (nodes (fs s1)))" by (simp add: wf_state_def)
  from orphan_phase_inv [OF this op] w1 have "wf_state s2" by (simp add: wf_state_def)
  then show ?thesis by (simp add: cleanup_expired_def ip op wf_state_def)
qed

lemma wf_after_construction:
  assumes "distinct (map fst (nodes (fs s)))" "\<not> has_instance s"
  shows "wf_state (fst (ToolImageCache s temp_path now))"
  using assms
  by (auto simp: ToolImageCache_def new_def init_def Let_def wf_state_def fs_makedirs_def
      distinct_update split: sum.splits option.splits node.splits if_splits)

text \<open>
  An index entry without a file is a state the cache gets into by itself: a file left
  by an earlier process is looked up, which puts a fresh entry in the index, and the
  next sweep removes the file by its age and keeps the entry.
\<close>

lemma stale_entry_after_cleanup:
  "fst (cleanup_expired (fst (get_image orphan_state ''a_0'' 5000)) 5001) =
     stale_state\<lparr>cache := [(''a_0'', reconstruct ''a_0'' ''/tmp/tool_images/a_0.png'' ''.png'' 5000)],
                 logs := [(INFO, CleanedUp 1)]\<rparr>"
  by (simp add: cleanup_defs orphan_state_def stale_state_def get_image_def candidate_exts_def
      reconstruct_def rsplit1_def)

end
